theory Spec2Isabelle
  imports Complex_Main "HOL-Library.Sublist"
begin

section \<open>Data model\<close>

text \<open>
  A row of a table is a Python dictionary from column names to scalar values
  (\<^verbatim>\<open>row._asdict()\<close>): an association list in column order, with the usual
  dictionary operations written out.  An inventory document is a dictionary from table
  names to lists of rows.
\<close>

datatype pydate = Date nat nat nat

datatype pydatetime = DateTime nat nat nat nat nat nat nat

datatype val =
    VNull
  | VBool bool
  | VInt int
  | VFloat real
  | VStr string
  | VDate pydate
  | VDateTime pydatetime

type_synonym row = "(string \<times> val) list"

type_synonym document = "(string \<times> row list) list"

datatype error =
    KeyError
  | IndexError
  | TypeError
  | IntegrityError
  | CompileError
  | FileNotFoundError
  | FileExistsError
  | IsADirectoryError
  | NotADirectoryError
  | ValueError
  | NotModelled

text \<open>
  A table of the store, as \<^verbatim>\<open>metadata.tables[name]\<close> shows it: its column names,
  its foreign-key constraints (column, referenced table, referenced column) and its rows
  in the order in which a query yields them.
\<close>

record table =
  columns :: "string list"
  foreign_keys :: "(string \<times> string \<times> string) list"
  rows :: "row list"

text \<open>
  What the engine was asked to do, in order: the statements executed and the transaction
  brackets of \<^verbatim>\<open>with self.engine.begin() as conn\<close>.  The journal is not
  part of the program; it records the order of its effects.
\<close>

datatype statement = Insert string "row list" | Delete string

datatype event = Begin | Execute statement | Commit | Rollback

text \<open>
  The \<^verbatim>\<open>Database\<close> object: the reflected tables (\<^verbatim>\<open>metadata.tables\<close>, a
  dictionary in declaration order), the dependency ordering \<^verbatim>\<open>metadata.sorted_tables\<close>
  the ORM hands out, whether the engine checks foreign keys
  (\<^verbatim>\<open>sqlite_foreign\<close>), the journal, and the four configuration attributes.
\<close>

record database =
  metadata_tables :: "(string \<times> table) list"
  sorted_tables :: "string list"
  foreign_checks :: bool
  journal :: "event list"
  reference_tables :: "string list"
  primary_table :: string
  primary_table_key :: string
  foreign_key :: string

subsection \<open>Dictionary operations\<close>

definition dict_get :: "('k \<times> 'v) list \<Rightarrow> 'k \<Rightarrow> error + 'v" where
  "dict_get d k = (case map_of d k of None \<Rightarrow> Inl KeyError | Some v \<Rightarrow> Inr v)"

fun dict_set :: "('k \<times> 'v) list \<Rightarrow> 'k \<Rightarrow> 'v \<Rightarrow> ('k \<times> 'v) list" where
  "dict_set [] k v = [(k, v)]"
| "dict_set (p # ps) k v = (if fst p = k then (k, v) # ps else p # dict_set ps k v)"

definition dict_del :: "('k \<times> 'v) list \<Rightarrow> 'k \<Rightarrow> error + ('k \<times> 'v) list" where
  "dict_del d k =
     (if k \<in> fst ` set d then Inr (filter (\<lambda>p. fst p \<noteq> k) d) else Inl KeyError)"

definition dict_keys :: "('k \<times> 'v) list \<Rightarrow> 'k list" where
  "dict_keys d = map fst d"

text \<open>Running a fallible step over a list, stopping at the first exception.\<close>

fun map_result :: "('a \<Rightarrow> error + 'b) \<Rightarrow> 'a list \<Rightarrow> error + 'b list" where
  "map_result f [] = Inr []"
| "map_result f (x # xs) =
     (case f x of
        Inl e \<Rightarrow> Inl e
      | Inr y \<Rightarrow> (case map_result f xs of Inl e \<Rightarrow> Inl e | Inr ys \<Rightarrow> Inr (y # ys)))"

section \<open>Inventory assembly\<close>

text \<open>The rows of a table, none when the store has no such table.\<close>

definition table_rows :: "database \<Rightarrow> string \<Rightarrow> row list" where
  "table_rows db t = (case map_of (metadata_tables db) t of None \<Rightarrow> [] | Some tb \<Rightarrow> rows tb)"

text \<open>\<^verbatim>\<open>session.query(table).filter(column == source_name).all()\<close>\<close>

definition query_filter :: "table \<Rightarrow> string \<Rightarrow> val \<Rightarrow> row list" where
  "query_filter tb col x = filter (\<lambda>r. map_of r col = Some x) (rows tb)"

text \<open>\<^verbatim>\<open>Database._row_cleanup\<close>\<close>

definition row_cleanup :: "database \<Rightarrow> row \<Rightarrow> error + row" where
  "row_cleanup db r = dict_del r (foreign_key db)"

text \<open>\<^verbatim>\<open>Database._inventory_query\<close>: returns the updated \<^verbatim>\<open>data_dict\<close>.\<close>

definition inventory_query ::
  "database \<Rightarrow> document \<Rightarrow> string \<Rightarrow> val \<Rightarrow> error + document" where
  "inventory_query db data_dict table_name source_name =
     (case dict_get (metadata_tables db) table_name of
        Inl e \<Rightarrow> Inl e
      | Inr tb \<Rightarrow>
          let cname = (if table_name = primary_table db then primary_table_key db
                       else foreign_key db)
          in if cname \<notin> set (columns tb) then Inl KeyError
             else
               let results = query_filter tb cname source_name
               in if results \<noteq> [] \<and> table_name = primary_table db
                    then Inr (dict_set data_dict table_name results)
                  else if results \<noteq> []
                    then (case map_result (row_cleanup db) results of
                            Inl e \<Rightarrow> Inl e
                          | Inr cleaned \<Rightarrow> Inr (dict_set data_dict table_name cleaned))
                  else Inr data_dict)"

text \<open>The loop of \<^verbatim>\<open>Database.inventory\<close> over \<^verbatim>\<open>metadata.tables\<close>.\<close>

fun inventory_loop ::
  "database \<Rightarrow> val \<Rightarrow> string list \<Rightarrow> document \<Rightarrow> error + document" where
  "inventory_loop db name [] data_dict = Inr data_dict"
| "inventory_loop db name (t # ts) data_dict =
     (if t \<in> set (reference_tables db @ [primary_table db])
        then inventory_loop db name ts data_dict
      else (case inventory_query db data_dict t name of
              Inl e \<Rightarrow> Inl e
            | Inr d \<Rightarrow> inventory_loop db name ts d))"

text \<open>\<^verbatim>\<open>Database.inventory\<close>\<close>

definition inventory :: "database \<Rightarrow> val \<Rightarrow> error + document" where
  "inventory db name =
     (case inventory_query db [] (primary_table db) name of
        Inl e \<Rightarrow> Inl e
      | Inr d \<Rightarrow> inventory_loop db name (dict_keys (metadata_tables db)) d)"

section \<open>Reading the inventory off the tables\<close>

text \<open>
  Definitions used to state and prove what \<open>inventory\<close> returns: the entry each table
  contributes, the document as a fold over the data tables, and the condition on the schema
  under which no lookup of the assembly raises.
\<close>

definition strip_fk :: "database \<Rightarrow> row \<Rightarrow> row" where
  "strip_fk db r = filter (\<lambda>p. fst p \<noteq> foreign_key db) r"

definition schema_ok :: "database \<Rightarrow> bool" where
  "schema_ok db =
     (distinct (dict_keys (metadata_tables db)) \<and>
      (case map_of (metadata_tables db) (primary_table db) of
         None \<Rightarrow> False
       | Some tb \<Rightarrow> primary_table_key db \<in> set (columns tb)) \<and>
      list_all (\<lambda>(t, tb). t \<in> set (reference_tables db @ [primary_table db])
                          \<or> foreign_key db \<in> set (columns tb)) (metadata_tables db))"

definition matches :: "database \<Rightarrow> string \<Rightarrow> string \<Rightarrow> val \<Rightarrow> row list" where
  "matches db t c x = filter (\<lambda>r. map_of r c = Some x) (table_rows db t)"

definition entry :: "database \<Rightarrow> string \<Rightarrow> val \<Rightarrow> row list" where
  "entry db t x =
     (if t = primary_table db then matches db t (primary_table_key db) x
      else map (strip_fk db) (matches db t (foreign_key db) x))"

definition put :: "database \<Rightarrow> val \<Rightarrow> document \<Rightarrow> string \<Rightarrow> document" where
  "put db x d t = (if entry db t x = [] then d else dict_set d t (entry db t x))"

definition table_ok :: "database \<Rightarrow> string \<Rightarrow> bool" where
  "table_ok db t =
     (case map_of (metadata_tables db) t of
        None \<Rightarrow> False
      | Some tb \<Rightarrow> (if t = primary_table db then primary_table_key db else foreign_key db)
                    \<in> set (columns tb))"

definition data_tables :: "database \<Rightarrow> string list" where
  "data_tables db =
     filter (\<lambda>t. t \<notin> set (reference_tables db @ [primary_table db]))
       (dict_keys (metadata_tables db))"

definition inventory_doc :: "database \<Rightarrow> val \<Rightarrow> document" where
  "inventory_doc db x = foldl (put db x) (put db x [] (primary_table db)) (data_tables db)"

text \<open>
  The store of the repository's tests: three reference tables, the primary table
  \<open>Sources\<close>, and the data tables \<open>Names\<close> and \<open>Photometry\<close>.
\<close>

definition example_db :: database where
  "example_db = \<lparr>
     metadata_tables = [
       (''Publications'', \<lparr>columns = [''name'', ''bibcode''], foreign_keys = [],
          rows = [[(''name'', VStr ''Schm10''), (''bibcode'', VStr ''2010AJ....139.1808S'')],
                  [(''name'', VStr ''Cutr12''), (''bibcode'', VStr ''2012yCat.2311....0C'')]]\<rparr>),
       (''Telescopes'', \<lparr>columns = [''name'', ''reference''],
          foreign_keys = [(''reference'', ''Publications'', ''name'')],
          rows = [[(''name'', VStr ''WISE''), (''reference'', VNull)]]\<rparr>),
       (''Instruments'', \<lparr>columns = [''name'', ''reference''],
          foreign_keys = [(''reference'', ''Publications'', ''name'')],
          rows = []\<rparr>),
       (''Sources'', \<lparr>columns = [''source'', ''ra'', ''dec'', ''reference''],
          foreign_keys = [(''reference'', ''Publications'', ''name'')],
          rows = [[(''source'', VStr ''2MASS J13571237+1428398''), (''ra'', VFloat 209.301675),
                   (''dec'', VFloat 14.477722), (''reference'', VStr ''Schm10'')]]\<rparr>),
       (''Names'', \<lparr>columns = [''source'', ''other_name''],
          foreign_keys = [(''source'', ''Sources'', ''source'')],
          rows = [[(''source'', VStr ''2MASS J13571237+1428398''),
                   (''other_name'', VStr ''2MASS J13571237+1428398'')],
                  [(''source'', VStr ''2MASS J13571237+1428398''),
                   (''other_name'', VStr ''SDSS J135712.40+142839.8'')]]\<rparr>),
       (''Photometry'', \<lparr>columns = [''source'', ''band'', ''magnitude'', ''telescope'', ''reference''],
          foreign_keys = [(''source'', ''Sources'', ''source''), (''telescope'', ''Telescopes'', ''name''),
                          (''reference'', ''Publications'', ''name'')],
          rows = [[(''source'', VStr ''2MASS J13571237+1428398''), (''band'', VStr ''WISE_W1''),
                   (''magnitude'', VFloat 13.348), (''telescope'', VStr ''WISE''),
                   (''reference'', VStr ''Cutr12'')],
                  [(''source'', VStr ''2MASS J13571237+1428398''), (''band'', VStr ''WISE_W2''),
                   (''magnitude'', VFloat 12.99), (''telescope'', VStr ''WISE''),
                   (''reference'', VStr ''Cutr12'')]]\<rparr>)],
     sorted_tables = [''Publications'', ''Telescopes'', ''Instruments'', ''Sources'', ''Names'',
                      ''Photometry''],
     foreign_checks = True,
     journal = [],
     reference_tables = [''Publications'', ''Telescopes'', ''Instruments''],
     primary_table = ''Sources'',
     primary_table_key = ''source'',
     foreign_key = ''source''\<rparr>"

definition example_source :: val where
  "example_source = VStr ''2MASS J13571237+1428398''"

section \<open>File names of the export\<close>

text \<open>
  The string methods of line 785 of \<^verbatim>\<open>save_json\<close>:
  \<^verbatim>\<open>source_name.lower().replace(" ", "_").replace("*", "").strip() + ".json"\<close>.
  A character of a \<open>string\<close> is a code point from 0 to 255.  On these,
  \<^verbatim>\<open>str.lower()\<close> adds 32 to the capital letters (A to Z, and the Latin-1 capitals
  192 to 214 and 216 to 222) and \<^verbatim>\<open>str.strip()\<close> removes the code points 9 to 13,
  28 to 32, 133 and 160.  \<open>str_replace\<close> is \<^verbatim>\<open>str.replace\<close> for a one-character
  pattern.
\<close>

definition char_lower :: "char \<Rightarrow> char" where
  "char_lower c =
     (let n = (of_char c :: nat)
      in if (65 \<le> n \<and> n \<le> 90) \<or> (192 \<le> n \<and> n \<le> 214) \<or> (216 \<le> n \<and> n \<le> 222)
         then char_of (n + 32) else c)"

definition str_lower :: "string \<Rightarrow> string" where
  "str_lower s = map char_lower s"

fun str_replace :: "char \<Rightarrow> string \<Rightarrow> string \<Rightarrow> string" where
  "str_replace old new [] = []"
| "str_replace old new (c # cs) =
     (if c = old then new @ str_replace old new cs else c # str_replace old new cs)"

definition is_space :: "char \<Rightarrow> bool" where
  "is_space c =
     (let n = (of_char c :: nat)
      in (9 \<le> n \<and> n \<le> 13) \<or> (28 \<le> n \<and> n \<le> 32) \<or> n = 133 \<or> n = 160)"

definition str_strip :: "string \<Rightarrow> string" where
  "str_strip s = rev (dropWhile is_space (rev (dropWhile is_space s)))"

definition json_filename :: "string \<Rightarrow> string" where
  "json_filename source_name =
     str_strip (str_replace (CHR ''*'') '''' (str_replace (CHR '' '') ''_'' (str_lower source_name)))
       @ ''.json''"

text \<open>
  The rule as the specification words it: lowercase the identifier, replace spaces with
  underscores, remove asterisk characters, strip leading and trailing whitespace, append
  \<^verbatim>\<open>.json\<close>.  Lowercase is the table of capital and small letters, whitespace the
  list of whitespace characters, and stripping removes the whitespace before the first
  and after the last other character.
\<close>

definition lowercase_table :: "(char \<times> char) list" where
  "lowercase_table =
     zip (''ABCDEFGHIJKLMNOPQRSTUVWXYZ'' @
          [CHR 0xC0, CHR 0xC1, CHR 0xC2, CHR 0xC3, CHR 0xC4, CHR 0xC5, CHR 0xC6, CHR 0xC7,
           CHR 0xC8, CHR 0xC9, CHR 0xCA, CHR 0xCB, CHR 0xCC, CHR 0xCD, CHR 0xCE, CHR 0xCF,
           CHR 0xD0, CHR 0xD1, CHR 0xD2, CHR 0xD3, CHR 0xD4, CHR 0xD5, CHR 0xD6,
           CHR 0xD8, CHR 0xD9, CHR 0xDA, CHR 0xDB, CHR 0xDC, CHR 0xDD, CHR 0xDE])
         (''abcdefghijklmnopqrstuvwxyz'' @
          [CHR 0xE0, CHR 0xE1, CHR 0xE2, CHR 0xE3, CHR 0xE4, CHR 0xE5, CHR 0xE6, CHR 0xE7,
           CHR 0xE8, CHR 0xE9, CHR 0xEA, CHR 0xEB, CHR 0xEC, CHR 0xED, CHR 0xEE, CHR 0xEF,
           CHR 0xF0, CHR 0xF1, CHR 0xF2, CHR 0xF3, CHR 0xF4, CHR 0xF5, CHR 0xF6,
           CHR 0xF8, CHR 0xF9, CHR 0xFA, CHR 0xFB, CHR 0xFC, CHR 0xFD, CHR 0xFE])"

definition lowercase :: "char \<Rightarrow> char" where
  "lowercase c = (case map_of lowercase_table c of None \<Rightarrow> c | Some l \<Rightarrow> l)"

definition whitespace :: "char list" where
  "whitespace = [CHR 0x09, CHR 0x0A, CHR 0x0B, CHR 0x0C, CHR 0x0D, CHR 0x1C, CHR 0x1D,
                 CHR 0x1E, CHR 0x1F, CHR 0x20, CHR 0x85, CHR 0xA0]"

fun strip_leading :: "string \<Rightarrow> string" where
  "strip_leading [] = []"
| "strip_leading (c # cs) = (if c \<in> set whitespace then strip_leading cs else c # cs)"

fun strip_trailing :: "string \<Rightarrow> string" where
  "strip_trailing [] = []"
| "strip_trailing (c # cs) =
     (let r = strip_trailing cs in if r = [] \<and> c \<in> set whitespace then [] else c # r)"

definition slug_rule :: "string \<Rightarrow> string" where
  "slug_rule s =
     (let lowered = map lowercase s;
          underscored = map (\<lambda>c. if c = CHR '' '' then CHR ''_'' else c) lowered;
          no_asterisks = filter (\<lambda>c. c \<noteq> CHR ''*'') underscored;
          stripped = strip_trailing (strip_leading no_asterisks)
      in stripped @ ''.json'')"

text \<open>The code points of the capital letters and of the whitespace characters.\<close>

definition upper_codes :: "nat list" where
  "upper_codes = [65 ..< 91] @ [192 ..< 215] @ [216 ..< 223]"

definition space_codes :: "nat list" where
  "space_codes = [9 ..< 14] @ [28 ..< 33] @ [133, 160]"

section \<open>The relational store\<close>

text \<open>
  The engine behind \<^verbatim>\<open>conn.execute\<close>.  An insert stores each dictionary as a row in
  the table's column order, a column the dictionary lacks being NULL, and refuses a
  dictionary with a key that is no column (\<^verbatim>\<open>Unconsumed column names\<close>).  With
  foreign-key checks on, an insert whose row points at no parent row and a delete that
  would orphan a row of another table raise an integrity error; the check runs at the end
  of the statement.  Uniqueness and NOT NULL constraints are not modelled.  A statement
  that raises leaves the tables as they were.
\<close>

type_synonym outcome = "(error \<times> database) + database"

definition set_rows :: "database \<Rightarrow> string \<Rightarrow> row list \<Rightarrow> database" where
  "set_rows db t rs =
     db\<lparr>metadata_tables :=
          map (\<lambda>(n, tb). if n = t then (n, tb\<lparr>rows := rs\<rparr>) else (n, tb)) (metadata_tables db)\<rparr>"

definition stored_row :: "string list \<Rightarrow> row \<Rightarrow> row" where
  "stored_row cols r = map (\<lambda>c. (c, case map_of r c of None \<Rightarrow> VNull | Some v \<Rightarrow> v)) cols"

definition cell :: "row \<Rightarrow> string \<Rightarrow> val" where
  "cell r c = (case map_of r c of None \<Rightarrow> VNull | Some v \<Rightarrow> v)"

definition parent_exists :: "database \<Rightarrow> string \<times> string \<times> string \<Rightarrow> row \<Rightarrow> bool" where
  "parent_exists db fk r =
     (case fk of (col, t2, c2) \<Rightarrow>
        cell r col = VNull \<or> (\<exists>r2 \<in> set (table_rows db t2). map_of r2 c2 = Some (cell r col)))"

definition child_exists :: "database \<Rightarrow> string \<Rightarrow> row list \<Rightarrow> bool" where
  "child_exists db t deleted =
     (\<exists>(n, tb) \<in> set (metadata_tables db). n \<noteq> t \<and>
        (\<exists>(col, t2, c2) \<in> set (foreign_keys tb). t2 = t \<and>
           (\<exists>r' \<in> set (rows tb). cell r' col \<noteq> VNull \<and>
              (\<exists>r \<in> set deleted. map_of r c2 = Some (cell r' col)))))"

fun apply_statement :: "database \<Rightarrow> statement \<Rightarrow> error + database" where
  "apply_statement db (Insert t vals) =
     (case dict_get (metadata_tables db) t of
        Inl e \<Rightarrow> Inl e
      | Inr tb \<Rightarrow>
          if \<exists>r \<in> set vals. \<exists>k \<in> fst ` set r. k \<notin> set (columns tb) then Inl CompileError
          else
            let new = (if vals = [] then [stored_row (columns tb) []]
                       else map (stored_row (columns tb)) vals);
                db' = set_rows db t (rows tb @ new)
            in if foreign_checks db \<and>
                  \<not> (\<forall>r \<in> set new. \<forall>fk \<in> set (foreign_keys tb). parent_exists db' fk r)
               then Inl IntegrityError
               else Inr db')"
| "apply_statement db (Delete t) =
     (case dict_get (metadata_tables db) t of
        Inl e \<Rightarrow> Inl e
      | Inr tb \<Rightarrow>
          if foreign_checks db \<and> child_exists db t (rows tb) then Inl IntegrityError
          else Inr (set_rows db t []))"

text \<open>
  \<^verbatim>\<open>conn.execute(stmt)\<close> and \<^verbatim>\<open>with self.engine.begin() as conn: ...\<close>.  An
  outcome is the store after a normal return, or the exception together with the store it
  leaves behind: a transaction left by an exception is rolled back.
\<close>

definition execute :: "database \<Rightarrow> statement \<Rightarrow> outcome" where
  "execute db stmt =
     (let db1 = db\<lparr>journal := journal db @ [Execute stmt]\<rparr>
      in case apply_statement db1 stmt of
           Inl e \<Rightarrow> Inl (e, db1)
         | Inr db2 \<Rightarrow> Inr db2)"

definition transaction :: "(database \<Rightarrow> outcome) \<Rightarrow> database \<Rightarrow> outcome" where
  "transaction body db =
     (case body (db\<lparr>journal := journal db @ [Begin]\<rparr>) of
        Inl (e, db2) \<Rightarrow> Inl (e, db\<lparr>journal := journal db2 @ [Rollback]\<rparr>)
      | Inr db2 \<Rightarrow> Inr (db2\<lparr>journal := journal db2 @ [Commit]\<rparr>))"

text \<open>
  \<^verbatim>\<open>conn.execute(self.metadata.tables[t].insert().values(vals))\<close>: the lookup of the
  table raises before anything is executed.
\<close>

definition insert_into :: "database \<Rightarrow> string \<Rightarrow> row list \<Rightarrow> outcome" where
  "insert_into db t vals =
     (case dict_get (metadata_tables db) t of
        Inl e \<Rightarrow> Inl (e, db)
      | Inr tb \<Rightarrow> execute db (Insert t vals))"

section \<open>Loading one source document\<close>

text \<open>
  Lines 954 to 967 of \<^verbatim>\<open>load_json\<close>, on the parsed document: the inner loop over
  the rows of one key, the loop over \<^verbatim>\<open>data.items()\<close>, and the body.
\<close>

fun load_json_values :: "database \<Rightarrow> val \<Rightarrow> string \<Rightarrow> row list \<Rightarrow> outcome" where
  "load_json_values db source key [] = Inr db"
| "load_json_values db source key (v # vs) =
     (let temp_dict = dict_set v (foreign_key db) source
      in case insert_into db key [temp_dict] of
           Inl x \<Rightarrow> Inl x
         | Inr db1 \<Rightarrow> load_json_values db1 source key vs)"

fun load_json_items :: "database \<Rightarrow> val \<Rightarrow> document \<Rightarrow> outcome" where
  "load_json_items db source [] = Inr db"
| "load_json_items db source ((key, value) # rest) =
     (if key = primary_table db then load_json_items db source rest
      else (case load_json_values db source key value of
              Inl x \<Rightarrow> Inl x
            | Inr db1 \<Rightarrow> load_json_items db1 source rest))"

definition load_json_data :: "database \<Rightarrow> document \<Rightarrow> outcome" where
  "load_json_data db data =
     (case dict_get data (primary_table db) of
        Inl e \<Rightarrow> Inl (e, db)
      | Inr prows \<Rightarrow>
          (case prows of
             [] \<Rightarrow> Inl (IndexError, db)
           | r0 # _ \<Rightarrow>
               (case dict_get r0 (primary_table_key db) of
                  Inl e \<Rightarrow> Inl (e, db)
                | Inr source \<Rightarrow>
                    transaction
                      (\<lambda>conn. case insert_into conn (primary_table db) prows of
                                 Inl x \<Rightarrow> Inl x
                               | Inr conn1 \<Rightarrow> load_json_items conn1 source data)
                      db)))"

section \<open>JSON values and the codec hooks\<close>

text \<open>
  What \<^verbatim>\<open>json.dumps\<close> writes and \<^verbatim>\<open>json.load\<close> reads, as values: the scalars
  of JSON, a row object, and the two shapes of file the export writes, an object of arrays
  of row objects (a source document) and an array of row objects (a reference table).
  \<open>JOther\<close> stands for every other content, which the import cannot parse or index.
  The text layer of the JSON library is not modelled: a value written is the value read.
\<close>

datatype jval = JNull | JBool bool | JInt int | JFloat real | JStr string

type_synonym jrow = "(string \<times> jval) list"

datatype json = JDocument "(string \<times> jrow list) list" | JRows "jrow list" | JOther

text \<open>
  The export directory: its entries in the order \<^verbatim>\<open>os.listdir\<close> gives them, each a
  file or a sub-directory of files.  A location is the directory itself or one of its
  sub-directories (\<^verbatim>\<open>os.path.join(directory, name)\<close>).
\<close>

datatype node = File json | Dir "(string \<times> json) list"

type_synonym directory = "(string \<times> node) list"

datatype location = Top | Sub string

text \<open>
  Modelled from the spec: \<^verbatim>\<open>json_serializer\<close> and \<^verbatim>\<open>datetime_json_parser\<close> are
  imported from \<^verbatim>\<open>utils\<close>, which is not among the sources.  The specification has
  date and date-time values rendered as ISO-8601 strings by the serializer hook, and a
  post-parse hook that converts exactly the strings matching the date or the date-time
  pattern back to native values, all other strings passing through unchanged.  The
  patterns taken here are \<^verbatim>\<open>YYYY-MM-DD\<close> and
  \<^verbatim>\<open>YYYY-MM-DDTHH:MM:SS[.ffffff]\<close>, with the fields in their calendar ranges.
\<close>

definition digit_char :: "nat \<Rightarrow> char" where
  "digit_char n = ''0123456789'' ! (n mod 10)"

definition digit_val :: "char \<Rightarrow> nat option" where
  "digit_val c = map_of (zip ''0123456789'' [0 ..< 10]) c"

fun digits :: "nat \<Rightarrow> nat \<Rightarrow> string" where
  "digits 0 n = []"
| "digits (Suc w) n = digits w (n div 10) @ [digit_char n]"

fun number :: "string \<Rightarrow> nat option" where
  "number [] = Some 0"
| "number (c # cs) =
     (case digit_val c of
        None \<Rightarrow> None
      | Some k \<Rightarrow> (case number cs of None \<Rightarrow> None | Some n \<Rightarrow> Some (k * 10 ^ length cs + n)))"

definition leap_year :: "nat \<Rightarrow> bool" where
  "leap_year y = (y mod 4 = 0 \<and> (y mod 100 \<noteq> 0 \<or> y mod 400 = 0))"

definition days_in_month :: "nat \<Rightarrow> nat \<Rightarrow> nat" where
  "days_in_month y m =
     (if m = 2 then (if leap_year y then 29 else 28)
      else if m \<in> {4, 6, 9, 11} then 30 else 31)"

fun valid_date :: "pydate \<Rightarrow> bool" where
  "valid_date (Date y m d) =
     (1 \<le> y \<and> y \<le> 9999 \<and> 1 \<le> m \<and> m \<le> 12 \<and> 1 \<le> d \<and> d \<le> days_in_month y m)"

fun valid_datetime :: "pydatetime \<Rightarrow> bool" where
  "valid_datetime (DateTime y m d hh mm ss us) =
     (valid_date (Date y m d) \<and> hh < 24 \<and> mm < 60 \<and> ss < 60 \<and> us < 1000000)"

fun date_isoformat :: "pydate \<Rightarrow> string" where
  "date_isoformat (Date y m d) = digits 4 y @ ''-'' @ digits 2 m @ ''-'' @ digits 2 d"

fun datetime_isoformat :: "pydatetime \<Rightarrow> string" where
  "datetime_isoformat (DateTime y m d hh mm ss us) =
     date_isoformat (Date y m d) @ ''T'' @ digits 2 hh @ '':'' @ digits 2 mm @ '':'' @ digits 2 ss
       @ (if us = 0 then [] else ''.'' @ digits 6 us)"

definition parse_date :: "string \<Rightarrow> pydate option" where
  "parse_date s =
     (if length s = 10 \<and> s ! 4 = CHR ''-'' \<and> s ! 7 = CHR ''-'' then
        (case (number (take 4 s), number (take 2 (drop 5 s)), number (drop 8 s)) of
           (Some y, Some m, Some d) \<Rightarrow>
              if valid_date (Date y m d) then Some (Date y m d) else None
         | _ \<Rightarrow> None)
      else None)"

definition parse_time :: "string \<Rightarrow> (nat \<times> nat \<times> nat \<times> nat) option" where
  "parse_time s =
     (if (length s = 8 \<or> (length s = 15 \<and> s ! 8 = CHR ''.'')) \<and> s ! 2 = CHR '':'' \<and> s ! 5 = CHR '':''
      then
        (case (number (take 2 s), number (take 2 (drop 3 s)), number (take 2 (drop 6 s)),
               number (drop 9 s)) of
           (Some hh, Some mm, Some ss, Some us) \<Rightarrow>
              if hh < 24 \<and> mm < 60 \<and> ss < 60 then Some (hh, mm, ss, us) else None
         | _ \<Rightarrow> None)
      else None)"

definition parse_datetime :: "string \<Rightarrow> pydatetime option" where
  "parse_datetime s =
     (if 11 \<le> length s \<and> s ! 10 = CHR ''T'' then
        (case (parse_date (take 10 s), parse_time (drop 11 s)) of
           (Some (Date y m d), Some (hh, mm, ss, us)) \<Rightarrow> Some (DateTime y m d hh mm ss us)
         | _ \<Rightarrow> None)
      else None)"

definition json_serializer :: "val \<Rightarrow> jval" where
  "json_serializer v =
     (case v of
        VNull \<Rightarrow> JNull
      | VBool b \<Rightarrow> JBool b
      | VInt i \<Rightarrow> JInt i
      | VFloat x \<Rightarrow> JFloat x
      | VStr s \<Rightarrow> JStr s
      | VDate d \<Rightarrow> JStr (date_isoformat d)
      | VDateTime d \<Rightarrow> JStr (datetime_isoformat d))"

text \<open>\<^verbatim>\<open>json.load\<close> without a hook, on a scalar.\<close>

definition json_plain :: "jval \<Rightarrow> val" where
  "json_plain j =
     (case j of
        JNull \<Rightarrow> VNull
      | JBool b \<Rightarrow> VBool b
      | JInt i \<Rightarrow> VInt i
      | JFloat x \<Rightarrow> VFloat x
      | JStr s \<Rightarrow> VStr s)"

definition datetime_json_parser_value :: "jval \<Rightarrow> val" where
  "datetime_json_parser_value j =
     (case j of
        JStr s \<Rightarrow>
          (case parse_date s of
             Some d \<Rightarrow> VDate d
           | None \<Rightarrow> (case parse_datetime s of Some d \<Rightarrow> VDateTime d | None \<Rightarrow> VStr s))
      | _ \<Rightarrow> json_plain j)"

definition datetime_json_parser :: "jrow \<Rightarrow> row" where
  "datetime_json_parser json_dict = map (\<lambda>(k, v). (k, datetime_json_parser_value v)) json_dict"

text \<open>
  \<^verbatim>\<open>json.dumps(data, indent=4, default=json_serializer)\<close> on a row and on a document,
  and \<^verbatim>\<open>json.load(f, object_hook=datetime_json_parser)\<close>: the hook runs on every
  object, and changes the row objects only, the values of the outer object being arrays.
\<close>

definition encode_row :: "row \<Rightarrow> jrow" where
  "encode_row r = map (\<lambda>(k, v). (k, json_serializer v)) r"

definition encode :: "document \<Rightarrow> json" where
  "encode d = JDocument (map (\<lambda>(t, rs). (t, map encode_row rs)) d)"

definition decode :: "json \<Rightarrow> error + document" where
  "decode j =
     (case j of
        JDocument d \<Rightarrow> Inr (map (\<lambda>(t, rs). (t, map datetime_json_parser rs)) d)
      | JRows rs \<Rightarrow> Inl TypeError
      | JOther \<Rightarrow> Inl ValueError)"

section \<open>Export and import\<close>

subsection \<open>Files\<close>

text \<open>
  The file operations the export and the import use, for the default sub-directory
  names.  A file name with a path separator would address another directory and is outside
  this model of the directory (\<open>NotModelled\<close>).
\<close>

definition reference_directory :: string where
  "reference_directory = ''reference''"

definition source_directory :: string where
  "source_directory = ''source''"

definition isdir :: "directory \<Rightarrow> string \<Rightarrow> bool" where
  "isdir fs d = (case map_of fs d of Some (Dir es) \<Rightarrow> True | _ \<Rightarrow> False)"

definition path_exists :: "directory \<Rightarrow> location \<Rightarrow> string \<Rightarrow> bool" where
  "path_exists fs loc name =
     (case loc of
        Top \<Rightarrow> name \<in> set (dict_keys fs)
      | Sub d \<Rightarrow> (case map_of fs d of Some (Dir es) \<Rightarrow> name \<in> set (dict_keys es) | _ \<Rightarrow> False))"

definition makedirs :: "directory \<Rightarrow> string \<Rightarrow> error + directory" where
  "makedirs fs d =
     (if d \<in> set (dict_keys fs) then Inl FileExistsError else Inr (fs @ [(d, Dir [])]))"

definition listdir :: "directory \<Rightarrow> location \<Rightarrow> error + string list" where
  "listdir fs loc =
     (case loc of
        Top \<Rightarrow> Inr (dict_keys fs)
      | Sub d \<Rightarrow>
          (case map_of fs d of
             None \<Rightarrow> Inl FileNotFoundError
           | Some (File c) \<Rightarrow> Inl NotADirectoryError
           | Some (Dir es) \<Rightarrow> Inr (dict_keys es)))"

definition read_file :: "directory \<Rightarrow> location \<Rightarrow> string \<Rightarrow> error + json" where
  "read_file fs loc name =
     (case loc of
        Top \<Rightarrow>
          (case map_of fs name of
             None \<Rightarrow> Inl FileNotFoundError
           | Some (Dir es) \<Rightarrow> Inl IsADirectoryError
           | Some (File c) \<Rightarrow> Inr c)
      | Sub d \<Rightarrow>
          (case map_of fs d of
             None \<Rightarrow> Inl FileNotFoundError
           | Some (File c) \<Rightarrow> Inl NotADirectoryError
           | Some (Dir es) \<Rightarrow>
               (case map_of es name of None \<Rightarrow> Inl FileNotFoundError | Some c \<Rightarrow> Inr c)))"

definition write_file :: "directory \<Rightarrow> location \<Rightarrow> string \<Rightarrow> json \<Rightarrow> error + directory" where
  "write_file fs loc name content =
     (if CHR ''/'' \<in> set name then Inl NotModelled
      else
        (case loc of
           Top \<Rightarrow>
             (case map_of fs name of
                Some (Dir es) \<Rightarrow> Inl IsADirectoryError
              | _ \<Rightarrow> Inr (dict_set fs name (File content)))
         | Sub d \<Rightarrow>
             (case map_of fs d of
                None \<Rightarrow> Inl FileNotFoundError
              | Some (File c) \<Rightarrow> Inl NotADirectoryError
              | Some (Dir es) \<Rightarrow> Inr (dict_set fs d (Dir (dict_set es name content))))))"

subsection \<open>Export\<close>

text \<open>
  \<^verbatim>\<open>save_json\<close> takes a name or a row of the primary table.  The identity values of
  the schema are strings; \<^verbatim>\<open>str()\<close> of any other scalar is outside the model
  (\<open>NotModelled\<close>).
\<close>

datatype name_arg = Name string | Row row

definition py_str :: "val \<Rightarrow> error + string" where
  "py_str v = (case v of VStr s \<Rightarrow> Inr s | _ \<Rightarrow> Inl NotModelled)"

definition save_json :: "database \<Rightarrow> directory \<Rightarrow> name_arg \<Rightarrow> location \<Rightarrow> error + directory" where
  "save_json db fs name dir =
     (case (case name of
              Name s \<Rightarrow> Inr (VStr s)
            | Row r \<Rightarrow> dict_get r (primary_table_key db)) of
        Inl e \<Rightarrow> Inl e
      | Inr ident \<Rightarrow>
          (case py_str ident of
             Inl e \<Rightarrow> Inl e
           | Inr source_name \<Rightarrow>
               (case inventory db ident of
                  Inl e \<Rightarrow> Inl e
                | Inr data \<Rightarrow> write_file fs dir (json_filename source_name) (encode data))))"

definition save_reference_table :: "database \<Rightarrow> directory \<Rightarrow> string \<Rightarrow> error + directory" where
  "save_reference_table db fs t =
     (case (if \<not> isdir fs reference_directory then makedirs fs reference_directory else Inr fs) of
        Inl e \<Rightarrow> Inl e
      | Inr fs1 \<Rightarrow>
          (case dict_get (metadata_tables db) t of
             Inl e \<Rightarrow> Inl e
           | Inr tb \<Rightarrow>
               let data = rows tb; filename = t @ ''.json''
               in if length data > 0
                  then write_file fs1 (Sub reference_directory) filename (JRows (map encode_row data))
                  else Inr fs1))"

fun save_reference_tables :: "database \<Rightarrow> directory \<Rightarrow> string list \<Rightarrow> error + directory" where
  "save_reference_tables db fs [] = Inr fs"
| "save_reference_tables db fs (t # ts) =
     (if t \<notin> set (dict_keys (metadata_tables db)) then save_reference_tables db fs ts
      else (case save_reference_table db fs t of
              Inl e \<Rightarrow> Inl e
            | Inr fs1 \<Rightarrow> save_reference_tables db fs1 ts))"

fun save_sources :: "database \<Rightarrow> directory \<Rightarrow> row list \<Rightarrow> error + directory" where
  "save_sources db fs [] = Inr fs"
| "save_sources db fs (r # rs) =
     (case save_json db fs (Row r) (Sub source_directory) of
        Inl e \<Rightarrow> Inl e
      | Inr fs1 \<Rightarrow> save_sources db fs1 rs)"

definition save_database :: "database \<Rightarrow> directory \<Rightarrow> bool \<Rightarrow> error + directory" where
  "save_database db fs clear_first =
     (let fs0 = (if clear_first then [] else fs)
      in case (if \<not> isdir fs0 reference_directory then makedirs fs0 reference_directory
               else Inr fs0) of
           Inl e \<Rightarrow> Inl e
         | Inr fs1 \<Rightarrow>
             (case (if \<not> isdir fs1 source_directory then makedirs fs1 source_directory
                    else Inr fs1) of
                Inl e \<Rightarrow> Inl e
              | Inr fs2 \<Rightarrow>
                  (case save_reference_tables db fs2 (reference_tables db) of
                     Inl e \<Rightarrow> Inl e
                   | Inr fs3 \<Rightarrow>
                       (case dict_get (metadata_tables db) (primary_table db) of
                          Inl e \<Rightarrow> Inl e
                        | Inr tb \<Rightarrow> save_sources db fs3 (rows tb)))))"

subsection \<open>Import\<close>

text \<open>
  \<^verbatim>\<open>load_table\<close>, \<^verbatim>\<open>load_json\<close> and the three phases of
  \<^verbatim>\<open>load_database\<close>: clearing the tables in the reverse of \<open>sorted_tables\<close>, loading
  the reference tables, and loading every source file of the source directory.
\<close>

definition load_table :: "database \<Rightarrow> directory \<Rightarrow> string \<Rightarrow> location \<Rightarrow> outcome" where
  "load_table db fs t dir =
     (let filename = t @ ''.json''
      in if path_exists fs dir filename then
           (case read_file fs dir filename of
              Inl e \<Rightarrow> Inl (e, db)
            | Inr JOther \<Rightarrow> Inl (ValueError, db)
            | Inr (JDocument d) \<Rightarrow> transaction (\<lambda>conn. Inl (CompileError, conn)) db
            | Inr (JRows rs) \<Rightarrow>
                transaction (\<lambda>conn. insert_into conn t (map (map (\<lambda>(k, v). (k, json_plain v))) rs)) db)
         else Inr db)"

definition load_json :: "database \<Rightarrow> directory \<Rightarrow> location \<Rightarrow> string \<Rightarrow> outcome" where
  "load_json db fs dir filename =
     (case read_file fs dir filename of
        Inl e \<Rightarrow> Inl (e, db)
      | Inr content \<Rightarrow>
          (case decode content of
             Inl e \<Rightarrow> Inl (e, db)
           | Inr data \<Rightarrow> load_json_data db data))"

fun clear_tables :: "database \<Rightarrow> string list \<Rightarrow> outcome" where
  "clear_tables db [] = Inr db"
| "clear_tables db (t # ts) =
     (case transaction (\<lambda>conn. case dict_get (metadata_tables conn) t of
                                  Inl e \<Rightarrow> Inl (e, conn)
                                | Inr tb \<Rightarrow> execute conn (Delete t)) db of
        Inl x \<Rightarrow> Inl x
      | Inr db1 \<Rightarrow> clear_tables db1 ts)"

fun load_reference_tables :: "database \<Rightarrow> directory \<Rightarrow> string list \<Rightarrow> outcome" where
  "load_reference_tables db fs [] = Inr db"
| "load_reference_tables db fs (t # ts) =
     (case (if path_exists fs (Sub reference_directory) (t @ ''.json'')
            then load_table db fs t (Sub reference_directory)
            else load_table db fs t Top) of
        Inl x \<Rightarrow> Inl x
      | Inr db1 \<Rightarrow> load_reference_tables db1 fs ts)"

text \<open>\<^verbatim>\<open>str.replace\<close> for a pattern of any length, \<^verbatim>\<open>endswith\<close>, \<^verbatim>\<open>startswith\<close>.\<close>

function replace_all :: "string \<Rightarrow> string \<Rightarrow> string \<Rightarrow> string" where
  "replace_all old new s =
     (if s = [] \<or> old = [] then s
      else if take (length old) s = old then new @ replace_all old new (drop (length old) s)
      else hd s # replace_all old new (tl s))"
  by pat_completeness auto
termination
  by (relation "measure (\<lambda>(old, new, s). length s)") auto

definition endswith :: "string \<Rightarrow> string \<Rightarrow> bool" where
  "endswith s suf = (length suf \<le> length s \<and> drop (length s - length suf) s = suf)"

definition startswith :: "string \<Rightarrow> string \<Rightarrow> bool" where
  "startswith s pre = (take (length pre) s = pre)"

fun load_sources :: "database \<Rightarrow> directory \<Rightarrow> location \<Rightarrow> string list \<Rightarrow> outcome" where
  "load_sources db fs dir [] = Inr db"
| "load_sources db fs dir (file # files) =
     (let core_name = replace_all ''.json'' '''' file
      in if core_name \<in> set (reference_tables db) then load_sources db fs dir files
         else if \<not> endswith file ''.json'' \<or> startswith file ''.'' then load_sources db fs dir files
         else (case load_json db fs dir file of
                 Inl x \<Rightarrow> Inl x
               | Inr db1 \<Rightarrow> load_sources db1 fs dir files))"

text \<open>The clearing loop of lines 988 to 992, over \<^verbatim>\<open>reversed(self.metadata.sorted_tables)\<close>.\<close>

definition clear_database :: "database \<Rightarrow> outcome" where
  "clear_database db = clear_tables db (rev (sorted_tables db))"

definition load_database :: "database \<Rightarrow> directory \<Rightarrow> outcome" where
  "load_database db fs =
     (case clear_database db of
        Inl x \<Rightarrow> Inl x
      | Inr db1 \<Rightarrow>
          (case load_reference_tables db1 fs (reference_tables db1) of
             Inl x \<Rightarrow> Inl x
           | Inr db2 \<Rightarrow>
               let directory_of_sources =
                     (if path_exists fs Top source_directory then Sub source_directory else Top)
               in (case listdir fs directory_of_sources of
                     Inl e \<Rightarrow> Inl (e, db2)
                   | Inr files \<Rightarrow> load_sources db2 fs directory_of_sources files)))"

section \<open>Reading the journal of an import\<close>

text \<open>
  The statements \<^verbatim>\<open>load_json\<close> sends for the keys other than the primary table, in
  order: one insert per row, the row with the foreign key set to the source.  \<open>ran\<close> says
  that a run has executed a prefix of a list of statements, all of it when it returned
  normally, and has left the configuration alone.
\<close>

definition child_inserts :: "database \<Rightarrow> val \<Rightarrow> document \<Rightarrow> statement list" where
  "child_inserts db source data =
     concat (map (\<lambda>(key, value). map (\<lambda>v. Insert key [dict_set v (foreign_key db) source]) value)
                 (filter (\<lambda>(key, value). key \<noteq> primary_table db) data))"

definition outcome_db :: "outcome \<Rightarrow> database" where
  "outcome_db res = (case res of Inl (e, db) \<Rightarrow> db | Inr db \<Rightarrow> db)"

definition same_config :: "database \<Rightarrow> database \<Rightarrow> bool" where
  "same_config db db' =
     (sorted_tables db' = sorted_tables db \<and> foreign_checks db' = foreign_checks db \<and>
      reference_tables db' = reference_tables db \<and> primary_table db' = primary_table db \<and>
      primary_table_key db' = primary_table_key db \<and> foreign_key db' = foreign_key db)"

definition ran :: "database \<Rightarrow> outcome \<Rightarrow> statement list \<Rightarrow> bool" where
  "ran db res full =
     (same_config db (outcome_db res) \<and>
      (\<exists>stmts. journal (outcome_db res) = journal db @ map Execute stmts \<and>
               prefix stmts full \<and> (\<not> isl res \<longrightarrow> stmts = full)))"

text \<open>
  The store accepts a list of statements when each of them, applied in turn, returns:
  \<open>run_statements\<close> gives the store they leave, and nothing when one of them raises.
\<close>

fun run_statements :: "database \<Rightarrow> statement list \<Rightarrow> database option" where
  "run_statements db [] = Some db"
| "run_statements db (s # ss) =
     (case apply_statement db s of Inl e \<Rightarrow> None | Inr db' \<Rightarrow> run_statements db' ss)"

text \<open>A source document, and a source directory holding it beside the export of an unknown name.\<close>

definition example_doc :: document where
  "example_doc =
     [(''Sources'', [[(''source'', VStr ''Gl 229''), (''ra'', VFloat 92.6), (''dec'', VNull),
                      (''reference'', VStr ''Schm10'')]]),
      (''Names'', [[(''other_name'', VStr ''Gl 229'')], [(''other_name'', VStr ''HD 42581'')]])]"

definition example_files :: directory where
  "example_files =
     [(''source'', Dir [(''gl_229.json'', encode example_doc), (''nobody.json'', encode [])])]"

section \<open>The dependency order of the tables\<close>

text \<open>
  \<open>children db t\<close> are the tables with a foreign key to \<open>t\<close> (a table's reference to itself
  aside), and \<open>references\<close> the relation of a table to the tables it points at.
  \<open>dependency_sorted\<close> is what the ORM documents of \<^verbatim>\<open>sorted_tables\<close>: it lists every
  table once, each after the tables it references.  \<open>before xs a b\<close>: \<open>a\<close> stands before
  \<open>b\<close> in \<open>xs\<close>.  \<open>delete_events\<close> is the journal of clearing tables one transaction each.
\<close>

definition children :: "database \<Rightarrow> string \<Rightarrow> string list" where
  "children db t =
     map fst (filter (\<lambda>(n, tb). n \<noteq> t \<and> (\<exists>(col, u, c2) \<in> set (foreign_keys tb). u = t))
                     (metadata_tables db))"

fun parents_first :: "database \<Rightarrow> string list \<Rightarrow> bool" where
  "parents_first db [] = True"
| "parents_first db (t # ts) = (set (children db t) \<subseteq> set ts \<and> parents_first db ts)"

definition dependency_sorted :: "database \<Rightarrow> bool" where
  "dependency_sorted db =
     (distinct (dict_keys (metadata_tables db)) \<and> distinct (sorted_tables db) \<and>
      set (sorted_tables db) = set (dict_keys (metadata_tables db)) \<and>
      parents_first db (sorted_tables db))"

definition references :: "database \<Rightarrow> (string \<times> string) set" where
  "references db = {(t, u). t \<in> set (children db u) \<and> u \<in> set (dict_keys (metadata_tables db))}"

definition before :: "'a list \<Rightarrow> 'a \<Rightarrow> 'a \<Rightarrow> bool" where
  "before xs a b = (\<exists>i j. i < j \<and> j < length xs \<and> xs ! i = a \<and> xs ! j = b)"

definition delete_events :: "string list \<Rightarrow> event list" where
  "delete_events ts = concat (map (\<lambda>t. [Begin, Execute (Delete t), Commit]) ts)"

fun children_done :: "database \<Rightarrow> string set \<Rightarrow> string list \<Rightarrow> bool" where
  "children_done db D [] = True"
| "children_done db D (t # ts) = (set (children db t) \<subseteq> D \<and> children_done db (insert t D) ts)"

definition schema_of :: "database \<Rightarrow> (string \<times> string list \<times> (string \<times> string \<times> string) list) list" where
  "schema_of db = map (\<lambda>(n, tb). (n, columns tb, foreign_keys tb)) (metadata_tables db)"

section \<open>Properties of the inventory\<close>

subsection \<open>Dictionaries\<close>

lemma map_of_dict_set: "map_of (dict_set d k v) = (map_of d)(k \<mapsto> v)"
  by (induction d) (auto simp: fun_eq_iff)

lemma keys_dict_set: "fst ` set (dict_set d k v) = insert k (fst ` set d)"
  by (induction d) auto

lemma distinct_dict_set: "distinct (map fst d) \<Longrightarrow> distinct (map fst (dict_set d k v))"
proof (induction d)
  case Nil then show ?case by simp
next
  case (Cons p ps)
  have "fst ` set (dict_set ps k v) = insert k (fst ` set ps)" by (rule keys_dict_set)
  with Cons show ?case by auto
qed

subsection \<open>What one query adds to the document\<close>

lemma map_result_cleanup:
  "map_result (row_cleanup db) rs = Inr cs \<Longrightarrow> cs = map (strip_fk db) rs"
  by (induction rs arbitrary: cs)
     (auto simp: row_cleanup_def dict_del_def strip_fk_def split: sum.splits if_splits)

lemma map_result_cleanup_ok:
  "\<forall>r \<in> set rs. map_of r (foreign_key db) = Some x \<Longrightarrow>
   map_result (row_cleanup db) rs = Inr (map (strip_fk db) rs)"
proof (induction rs)
  case Nil then show ?case by simp
next
  case (Cons r rs)
  then have "map_of r (foreign_key db) = Some x" by simp
  then have "foreign_key db \<in> fst ` set r" by (metis domI dom_map_of_conv_image_fst)
  then have "row_cleanup db r = Inr (strip_fk db r)"
    by (simp add: row_cleanup_def dict_del_def strip_fk_def)
  with Cons show ?case by simp
qed

lemma inventory_query_primary:
  assumes "map_of (metadata_tables db) (primary_table db) = Some tb"
      and "primary_table_key db \<in> set (columns tb)"
  shows "inventory_query db d (primary_table db) x =
           Inr (if matches db (primary_table db) (primary_table_key db) x = [] then d
                else dict_set d (primary_table db) (matches db (primary_table db) (primary_table_key db) x))"
  using assms
  by (simp add: inventory_query_def dict_get_def matches_def table_rows_def query_filter_def)

lemma inventory_query_other:
  assumes "map_of (metadata_tables db) t = Some tb"
      and "foreign_key db \<in> set (columns tb)" and "t \<noteq> primary_table db"
  shows "inventory_query db d t x =
           Inr (if matches db t (foreign_key db) x = [] then d
                else dict_set d t (map (strip_fk db) (matches db t (foreign_key db) x)))"
proof -
  have "map_result (row_cleanup db) (matches db t (foreign_key db) x)
        = Inr (map (strip_fk db) (matches db t (foreign_key db) x))"
    by (rule map_result_cleanup_ok[where x = x]) (simp add: matches_def)
  with assms show ?thesis
    by (simp add: inventory_query_def dict_get_def matches_def table_rows_def query_filter_def)
qed

lemma inventory_query_ok:
  "table_ok db t \<Longrightarrow> inventory_query db d t x = Inr (put db x d t)"
  by (cases "t = primary_table db")
     (auto simp: table_ok_def put_def entry_def inventory_query_primary inventory_query_other
           split: option.splits)

lemma inventory_query_Inr:
  "inventory_query db d t x = Inr d' \<Longrightarrow> table_ok db t"
  by (auto simp: inventory_query_def dict_get_def table_ok_def Let_def
           split: option.splits if_splits)

lemma inventory_loop_ok:
  "\<forall>t \<in> set ts. t \<notin> set (reference_tables db @ [primary_table db]) \<longrightarrow> table_ok db t \<Longrightarrow>
   inventory_loop db x ts d =
     Inr (foldl (put db x) d (filter (\<lambda>t. t \<notin> set (reference_tables db @ [primary_table db])) ts))"
  by (induction ts arbitrary: d) (simp_all add: inventory_query_ok)

lemma inventory_loop_Inr:
  "inventory_loop db x ts d = Inr d' \<Longrightarrow>
   \<forall>t \<in> set ts. t \<notin> set (reference_tables db @ [primary_table db]) \<longrightarrow> table_ok db t"
proof (induction ts arbitrary: d)
  case Nil then show ?case by simp
next
  case (Cons t ts)
  show ?case
  proof (cases "t \<in> set (reference_tables db @ [primary_table db])")
    case True
    with Cons show ?thesis by auto
  next
    case False
    with Cons.prems obtain d1 where q: "inventory_query db d t x = Inr d1"
      and l: "inventory_loop db x ts d1 = Inr d'"
      by (auto split: sum.splits)
    from q have "table_ok db t" by (rule inventory_query_Inr)
    with Cons.IH[OF l] show ?thesis by simp
  qed
qed

lemma inventory_Inr:
  assumes "inventory db x = Inr d"
  shows "d = inventory_doc db x"
proof -
  from assms obtain d0 where q: "inventory_query db [] (primary_table db) x = Inr d0"
    and l: "inventory_loop db x (dict_keys (metadata_tables db)) d0 = Inr d"
    by (auto simp: inventory_def split: sum.splits)
  from q have "d0 = put db x [] (primary_table db)"
    using inventory_query_ok[OF inventory_query_Inr[OF q]] by simp
  moreover from l have "d = foldl (put db x) d0 (data_tables db)"
    using inventory_loop_ok[OF inventory_loop_Inr[OF l]] by (simp add: data_tables_def)
  ultimately show ?thesis by (simp add: inventory_doc_def)
qed

lemma schema_ok_table_ok:
  assumes "schema_ok db"
  shows "table_ok db (primary_table db)"
    and "t \<in> set (dict_keys (metadata_tables db)) \<Longrightarrow>
         t \<notin> set (reference_tables db @ [primary_table db]) \<Longrightarrow> table_ok db t"
proof -
  from assms show "table_ok db (primary_table db)"
    by (auto simp: schema_ok_def table_ok_def split: option.splits)
next
  assume t: "t \<in> set (dict_keys (metadata_tables db))"
     and n: "t \<notin> set (reference_tables db @ [primary_table db])"
  from assms have dist: "distinct (map fst (metadata_tables db))"
    by (simp add: schema_ok_def dict_keys_def)
  from t obtain tb where m: "(t, tb) \<in> set (metadata_tables db)"
    by (auto simp: dict_keys_def)
  with dist have "map_of (metadata_tables db) t = Some tb" by simp
  moreover from assms m n have "foreign_key db \<in> set (columns tb)"
    by (auto simp: schema_ok_def list_all_iff)
  ultimately show "table_ok db t" using n by (simp add: table_ok_def)
qed

lemma inventory_total:
  assumes "schema_ok db"
  shows "inventory db x = Inr (inventory_doc db x)"
proof -
  have "inventory_query db [] (primary_table db) x = Inr (put db x [] (primary_table db))"
    by (rule inventory_query_ok) (rule schema_ok_table_ok(1)[OF assms])
  moreover have "inventory_loop db x (dict_keys (metadata_tables db)) (put db x [] (primary_table db))
     = Inr (foldl (put db x) (put db x [] (primary_table db)) (data_tables db))"
    unfolding data_tables_def
    by (rule inventory_loop_ok) (use schema_ok_table_ok(2)[OF assms] in blast)
  ultimately show ?thesis by (simp add: inventory_def inventory_doc_def)
qed

lemma map_of_foldl_put:
  "map_of (foldl (put db x) d ts) T =
     (if T \<in> set ts \<and> entry db T x \<noteq> [] then Some (entry db T x) else map_of d T)"
  by (induction ts arbitrary: d) (auto simp: put_def map_of_dict_set)

lemma distinct_foldl_put:
  "distinct (map fst d) \<Longrightarrow> distinct (map fst (foldl (put db x) d ts))"
  by (induction ts arbitrary: d) (auto simp: put_def distinct_dict_set)

lemma distinct_inventory_doc: "distinct (map fst (inventory_doc db x))"
  unfolding inventory_doc_def
  by (rule distinct_foldl_put) (simp add: put_def)

lemma table_rows_no_table:
  assumes "T \<notin> set (dict_keys (metadata_tables db))"
  shows "table_rows db T = []"
proof -
  from assms have "map_of (metadata_tables db) T = None"
    by (simp add: dict_keys_def map_of_eq_None_iff)
  then show ?thesis by (simp add: table_rows_def)
qed

lemma entry_no_table:
  "T \<notin> set (dict_keys (metadata_tables db)) \<Longrightarrow> entry db T x = []"
proof -
  assume "T \<notin> set (dict_keys (metadata_tables db))"
  then have "map_of (metadata_tables db) T = None"
    by (simp add: dict_keys_def map_of_eq_None_iff)
  then have "table_rows db T = []" by (simp add: table_rows_def)
  then show ?thesis by (auto simp: entry_def matches_def)
qed

lemma map_of_inventory_doc:
  "map_of (inventory_doc db x) T =
     (if (T = primary_table db \<or> T \<notin> set (reference_tables db)) \<and> entry db T x \<noteq> []
      then Some (entry db T x) else None)"
  using entry_no_table[of T db x]
  by (auto simp: inventory_doc_def map_of_foldl_put data_tables_def put_def map_of_dict_set)

subsection \<open>The example store of the test suite\<close>

lemma example_schema_ok: "schema_ok example_db"
  by (simp add: schema_ok_def example_db_def dict_keys_def)

lemma example_inventory:
  "inventory example_db example_source = Inr
     [(''Sources'', [[(''source'', VStr ''2MASS J13571237+1428398''), (''ra'', VFloat 209.301675),
                      (''dec'', VFloat 14.477722), (''reference'', VStr ''Schm10'')]]),
      (''Names'', [[(''other_name'', VStr ''2MASS J13571237+1428398'')],
                   [(''other_name'', VStr ''SDSS J135712.40+142839.8'')]]),
      (''Photometry'', [[(''band'', VStr ''WISE_W1''), (''magnitude'', VFloat 13.348),
                         (''telescope'', VStr ''WISE''), (''reference'', VStr ''Cutr12'')],
                        [(''band'', VStr ''WISE_W2''), (''magnitude'', VFloat 12.99),
                         (''telescope'', VStr ''WISE''), (''reference'', VStr ''Cutr12'')]])]"
  by (simp add: inventory_def inventory_query_def example_db_def example_source_def dict_get_def
        query_filter_def row_cleanup_def dict_del_def dict_keys_def)

subsection \<open>Sparse keys, stripped foreign keys, unknown identifiers\<close>

text \<open>
  Claim C3.  On a store whose data tables all carry the foreign-key column, the inventory of
  any identifier \<open>x\<close> is returned, and a table \<open>T\<close> that is neither the primary table nor
  a reference table is a key of it exactly when some row of \<open>T\<close> has \<open>x\<close> in its foreign-key
  column; no such key is ever bound to the empty list.
\<close>

theorem inventory_sparse_keys:
  assumes "schema_ok db" and "T \<noteq> primary_table db" and "T \<notin> set (reference_tables db)"
  shows "\<exists>d. inventory db x = Inr d \<and>
           (T \<in> set (dict_keys d) \<longleftrightarrow>
              (\<exists>r \<in> set (table_rows db T). map_of r (foreign_key db) = Some x)) \<and>
           (T, []) \<notin> set d"
proof -
  let ?d = "inventory_doc db x"
  have inv: "inventory db x = Inr ?d" by (rule inventory_total[OF assms(1)])
  have m: "map_of ?d T = (if entry db T x \<noteq> [] then Some (entry db T x) else None)"
    using assms(2,3) by (simp add: map_of_inventory_doc)
  have e: "entry db T x \<noteq> [] \<longleftrightarrow>
           (\<exists>r \<in> set (table_rows db T). map_of r (foreign_key db) = Some x)"
    using assms(2) by (auto simp: entry_def matches_def filter_empty_conv)
  have k: "T \<in> set (dict_keys ?d) \<longleftrightarrow> map_of ?d T \<noteq> None"
    by (simp add: dict_keys_def map_of_eq_None_iff)
  have n: "(T, []) \<notin> set ?d"
  proof
    assume "(T, []) \<in> set ?d"
    then have "map_of ?d T = Some []" using distinct_inventory_doc[of db x] by simp
    with m show False by (simp split: if_splits)
  qed
  from inv m e k n show ?thesis by auto
qed

text \<open>The example store: \<open>Names\<close> has rows for the example source and is a key.\<close>

theorem inventory_sparse_keys_witness:
  "schema_ok example_db \<and> ''Names'' \<noteq> primary_table example_db \<and>
   ''Names'' \<notin> set (reference_tables example_db) \<and>
   (\<exists>d. inventory example_db example_source = Inr d \<and>
      ''Names'' \<in> set (dict_keys d) \<and> (''Names'', []) \<notin> set d \<and>
      (\<exists>r \<in> set (table_rows example_db ''Names'').
          map_of r (foreign_key example_db) = Some example_source))"
  using inventory_sparse_keys[of example_db "''Names''" example_source] example_schema_ok
  by (auto simp: example_db_def example_source_def table_rows_def)

text \<open>
  Claim C4.  In a returned inventory, a row under the primary table's key is a row of the
  primary table as the query gave it, with its identity column bound to \<open>x\<close>; a row under
  any other key is a matching row of that table with the foreign-key column deleted, so
  the column is not among its keys.
\<close>

theorem inventory_foreign_key_stripped:
  assumes "inventory db x = Inr d" and "(T, rs) \<in> set d" and "r \<in> set rs"
  shows "(T = primary_table db \<longrightarrow>
            r \<in> set (table_rows db T) \<and> map_of r (primary_table_key db) = Some x) \<and>
         (T \<noteq> primary_table db \<longrightarrow>
            foreign_key db \<notin> fst ` set r \<and>
            (\<exists>r0 \<in> set (table_rows db T).
               map_of r0 (foreign_key db) = Some x \<and>
               r = filter (\<lambda>p. fst p \<noteq> foreign_key db) r0))"
proof -
  from assms(1) have d: "d = inventory_doc db x" by (rule inventory_Inr)
  with assms(2) have "map_of (inventory_doc db x) T = Some rs"
    using distinct_inventory_doc[of db x] by simp
  then have rs: "rs = entry db T x"
    by (simp add: map_of_inventory_doc split: if_splits)
  show ?thesis
  proof (cases "T = primary_table db")
    case True
    with rs assms(3) show ?thesis by (auto simp: entry_def matches_def)
  next
    case False
    with rs assms(3) obtain r0 where r0: "r0 \<in> set (table_rows db T)"
      "map_of r0 (foreign_key db) = Some x" "r = strip_fk db r0"
      by (auto simp: entry_def matches_def)
    then have "foreign_key db \<notin> fst ` set r" by (auto simp: strip_fk_def)
    with r0 False show ?thesis by (auto simp: strip_fk_def)
  qed
qed

text \<open>The second \<open>Names\<close> row of the example inventory.\<close>

theorem inventory_foreign_key_stripped_witness:
  "inventory example_db example_source = Inr
     [(''Sources'', [[(''source'', VStr ''2MASS J13571237+1428398''), (''ra'', VFloat 209.301675),
                      (''dec'', VFloat 14.477722), (''reference'', VStr ''Schm10'')]]),
      (''Names'', [[(''other_name'', VStr ''2MASS J13571237+1428398'')],
                   [(''other_name'', VStr ''SDSS J135712.40+142839.8'')]]),
      (''Photometry'', [[(''band'', VStr ''WISE_W1''), (''magnitude'', VFloat 13.348),
                         (''telescope'', VStr ''WISE''), (''reference'', VStr ''Cutr12'')],
                        [(''band'', VStr ''WISE_W2''), (''magnitude'', VFloat 12.99),
                         (''telescope'', VStr ''WISE''), (''reference'', VStr ''Cutr12'')]])] \<and>
   ''Names'' \<noteq> primary_table example_db \<and>
   foreign_key example_db \<notin> fst ` set [(''other_name'', VStr ''SDSS J135712.40+142839.8'')] \<and>
   (\<exists>r0 \<in> set (table_rows example_db ''Names'').
      map_of r0 (foreign_key example_db) = Some example_source \<and>
      [(''other_name'', VStr ''SDSS J135712.40+142839.8'')]
        = filter (\<lambda>p. fst p \<noteq> foreign_key example_db) r0)"
  using inventory_foreign_key_stripped[OF example_inventory,
          of "''Names''" "[[(''other_name'', VStr ''2MASS J13571237+1428398'')],
                   [(''other_name'', VStr ''SDSS J135712.40+142839.8'')]]"
             "[(''other_name'', VStr ''SDSS J135712.40+142839.8'')]"]
        example_inventory
  by (simp add: example_db_def)

text \<open>
  Claim C5 as stated asks for the primary table's key bound to the empty list when the
  identifier matches nothing.  The guard \<^verbatim>\<open>if results and ...\<close> records no key at
  all: the inventory of an unknown name in the example store is the empty dictionary.
\<close>

theorem inventory_missing_primary_counterexample:
  "matches example_db (primary_table example_db) (primary_table_key example_db)
      (VStr ''nobody'') = [] \<and>
   inventory example_db (VStr ''nobody'') = Inr [] \<and>
   \<not> (\<exists>d. inventory example_db (VStr ''nobody'') = Inr d \<and>
           map_of d (primary_table example_db) = Some [])"
  by (simp add: inventory_def inventory_query_def example_db_def dict_get_def
        query_filter_def dict_keys_def matches_def table_rows_def)

text \<open>
  Claim C5, amended.  When no row of the primary table has identity \<open>x\<close>, the inventory is
  returned without a primary-table key; its keys are the data tables that hold a row with
  foreign key \<open>x\<close>, so it is the empty dictionary when there is no such row.
\<close>

theorem inventory_missing_primary:
  assumes "schema_ok db"
      and "\<forall>r \<in> set (table_rows db (primary_table db)).
             map_of r (primary_table_key db) \<noteq> Some x"
  shows "\<exists>d. inventory db x = Inr d \<and>
           primary_table db \<notin> set (dict_keys d) \<and>
           set (dict_keys d) =
             {T \<in> set (data_tables db).
                \<exists>r \<in> set (table_rows db T). map_of r (foreign_key db) = Some x} \<and>
           ((\<forall>T \<in> set (data_tables db). \<forall>r \<in> set (table_rows db T).
                map_of r (foreign_key db) \<noteq> Some x) \<longrightarrow> d = [])"
proof -
  let ?d = "inventory_doc db x"
  have inv: "inventory db x = Inr ?d" by (rule inventory_total[OF assms(1)])
  have p: "entry db (primary_table db) x = []"
    using assms(2) by (auto simp: entry_def matches_def filter_empty_conv)
  have k: "\<And>T. T \<in> set (dict_keys ?d) \<longleftrightarrow> map_of ?d T \<noteq> None"
    by (simp add: dict_keys_def map_of_eq_None_iff)
  have e: "\<And>T. T \<noteq> primary_table db \<Longrightarrow> entry db T x \<noteq> [] \<longleftrightarrow>
           (\<exists>r \<in> set (table_rows db T). map_of r (foreign_key db) = Some x)"
    by (auto simp: entry_def matches_def filter_empty_conv)
  have nt: "\<And>T. T \<notin> set (dict_keys (metadata_tables db)) \<Longrightarrow> table_rows db T = []"
    by (rule table_rows_no_table)
  have keys: "set (dict_keys ?d) =
             {T \<in> set (data_tables db).
                \<exists>r \<in> set (table_rows db T). map_of r (foreign_key db) = Some x}"
  proof (rule set_eqI)
    fix T
    show "T \<in> set (dict_keys ?d) \<longleftrightarrow> T \<in> {T \<in> set (data_tables db).
                \<exists>r \<in> set (table_rows db T). map_of r (foreign_key db) = Some x}"
    proof (cases "T = primary_table db")
      case True
      with p show ?thesis by (simp add: k map_of_inventory_doc data_tables_def)
    next
      case False
      show ?thesis
      proof (cases "T \<in> set (dict_keys (metadata_tables db))")
        case True
        with False show ?thesis
          by (simp add: k map_of_inventory_doc data_tables_def e)
      next
        case nk: False
        from nt[OF nk] False show ?thesis
          by (simp add: k map_of_inventory_doc data_tables_def e)
      qed
    qed
  qed
  have prim: "primary_table db \<notin> set (dict_keys ?d)"
    using p by (simp add: k map_of_inventory_doc)
  have empty: "(\<forall>T \<in> set (data_tables db). \<forall>r \<in> set (table_rows db T).
                map_of r (foreign_key db) \<noteq> Some x) \<longrightarrow> ?d = []"
  proof
    assume "\<forall>T \<in> set (data_tables db). \<forall>r \<in> set (table_rows db T).
                map_of r (foreign_key db) \<noteq> Some x"
    with keys have "set (dict_keys ?d) = {}" by auto
    then show "?d = []" by (simp add: dict_keys_def)
  qed
  from inv prim keys empty show ?thesis by blast
qed

text \<open>The unknown name in the example store.\<close>

theorem inventory_missing_primary_witness:
  "schema_ok example_db \<and>
   matches example_db (primary_table example_db) (primary_table_key example_db)
      (VStr ''nobody'') = [] \<and>
   (\<exists>d. inventory example_db (VStr ''nobody'') = Inr d \<and>
      primary_table example_db \<notin> set (dict_keys d) \<and> d = [])"
  using inventory_missing_primary[of example_db "VStr ''nobody''"] example_schema_ok
  by (auto simp: example_db_def table_rows_def data_tables_def dict_keys_def matches_def)

section \<open>The file name rule\<close>

lemma str_replace_char: "str_replace old [new] s = map (\<lambda>c. if c = old then new else c) s"
  by (induction s) auto

lemma str_replace_empty: "str_replace old [] s = filter (\<lambda>c. c \<noteq> old) s"
  by (induction s) auto

lemma lowercase_table_codes:
  "list_all (\<lambda>(u, l). char_lower u = l \<and> of_char u \<in> set upper_codes) lowercase_table"
  by code_simp

lemma upper_codes_table:
  "list_all (\<lambda>n. char_of n \<in> set (map fst lowercase_table)) upper_codes"
  by code_simp

lemma whitespace_codes: "list_all (\<lambda>c. of_char c \<in> set space_codes) whitespace"
  by code_simp

lemma space_codes_whitespace: "list_all (\<lambda>n. char_of n \<in> set whitespace) space_codes"
  by code_simp

lemma in_upper_codes:
  "n \<in> set upper_codes \<longleftrightarrow>
     (65 \<le> n \<and> n \<le> 90) \<or> (192 \<le> n \<and> n \<le> 214) \<or> (216 \<le> n \<and> n \<le> 222)"
  unfolding upper_codes_def set_append set_upt by auto

lemma in_space_codes:
  "n \<in> set space_codes \<longleftrightarrow>
     (9 \<le> n \<and> n \<le> 13) \<or> (28 \<le> n \<and> n \<le> 32) \<or> n = 133 \<or> n = 160"
  unfolding space_codes_def set_append set_upt by auto

lemma char_lower_lowercase: "char_lower c = lowercase c"
proof (cases "map_of lowercase_table c")
  case None
  then have "c \<notin> set (map fst lowercase_table)" by (simp add: map_of_eq_None_iff)
  moreover have "of_char c \<in> set upper_codes \<Longrightarrow>
      char_of (of_char c :: nat) \<in> set (map fst lowercase_table)"
    using upper_codes_table unfolding list_all_iff by blast
  ultimately have "(of_char c :: nat) \<notin> set upper_codes" by auto
  then have "\<not> ((65 \<le> (of_char c :: nat) \<and> (of_char c :: nat) \<le> 90) \<or>
                (192 \<le> (of_char c :: nat) \<and> (of_char c :: nat) \<le> 214) \<or>
                (216 \<le> (of_char c :: nat) \<and> (of_char c :: nat) \<le> 222))"
    unfolding in_upper_codes .
  then have "char_lower c = c" unfolding char_lower_def Let_def by (rule if_not_P)
  with None show ?thesis by (simp add: lowercase_def)
next
  case (Some l)
  then have "(c, l) \<in> set lowercase_table" by (rule map_of_SomeD)
  with lowercase_table_codes have "char_lower c = l" by (auto simp: list_all_iff)
  with Some show ?thesis by (simp add: lowercase_def)
qed

lemma is_space_whitespace: "is_space c \<longleftrightarrow> c \<in> set whitespace"
proof
  assume "is_space c"
  then have "(of_char c :: nat) \<in> set space_codes"
    unfolding is_space_def Let_def in_space_codes .
  with space_codes_whitespace have "char_of (of_char c :: nat) \<in> set whitespace"
    unfolding list_all_iff by blast
  then show "c \<in> set whitespace" by simp
next
  assume "c \<in> set whitespace"
  with whitespace_codes have "(of_char c :: nat) \<in> set space_codes"
    unfolding list_all_iff by blast
  then show "is_space c" unfolding is_space_def Let_def in_space_codes .
qed

lemma strip_leading_dropWhile: "strip_leading s = dropWhile is_space s"
  by (induction s) (simp_all add: is_space_whitespace)

lemma strip_trailing_Nil: "strip_trailing s = [] \<longleftrightarrow> (\<forall>c \<in> set s. c \<in> set whitespace)"
  by (induction s) (auto simp: Let_def)

lemma strip_trailing_dropWhile: "strip_trailing s = rev (dropWhile is_space (rev s))"
proof (induction s)
  case Nil
  show ?case by simp
next
  case (Cons c cs)
  show ?case
  proof (cases "\<forall>x \<in> set cs. x \<in> set whitespace")
    case True
    then have e: "strip_trailing cs = []" by (simp add: strip_trailing_Nil)
    from True have "\<And>x. x \<in> set (rev cs) \<Longrightarrow> is_space x"
      by (simp add: is_space_whitespace)
    then have d: "dropWhile is_space (rev cs @ [c]) = dropWhile is_space [c]"
      by (rule dropWhile_append2)
    show ?thesis
    proof (cases "c \<in> set whitespace")
      case True
      then have "is_space c" by (simp add: is_space_whitespace)
      with True e d show ?thesis by (simp add: Let_def)
    next
      case False
      then have "\<not> is_space c" by (simp add: is_space_whitespace)
      with False e d show ?thesis by (simp add: Let_def)
    qed
  next
    case False
    then have n: "strip_trailing cs \<noteq> []" by (simp add: strip_trailing_Nil)
    from False obtain x where "x \<in> set (rev cs)" "\<not> is_space x"
      by (auto simp: is_space_whitespace)
    then have "dropWhile is_space (rev cs @ [c]) = dropWhile is_space (rev cs) @ [c]"
      by (rule dropWhile_append1)
    with n Cons.IH show ?thesis by (simp add: Let_def)
  qed
qed

lemma json_filename_rule: "json_filename s = slug_rule s"
proof -
  have l: "map char_lower s = map lowercase s" by (simp add: char_lower_lowercase)
  show ?thesis
    unfolding json_filename_def slug_rule_def str_strip_def str_lower_def Let_def
      str_replace_char str_replace_empty strip_leading_dropWhile strip_trailing_dropWhile l
    by (rule refl)
qed

text \<open>
  Claim C8.  For every source name, the file name \<^verbatim>\<open>save_json\<close> computes is the
  slug of the specification.  The name of the test source becomes
  \<^verbatim>\<open>2mass_j13571237+1428398.json\<close>; a name with an asterisk, inner spaces and
  surrounding whitespace keeps its underscores and loses the asterisk, the tab and the
  newline (the spaces are underscores by the time the name is stripped); a Latin-1 capital
  is lowered and the no-break space and the next-line control are stripped.
\<close>

theorem json_filename_slug:
  "json_filename s = slug_rule s \<and>
   json_filename ''2MASS J13571237+1428398'' = ''2mass_j13571237+1428398.json'' \<and>
   json_filename ([CHR 0x09] @ '' V* AB Dor '' @ [CHR 0x0A]) = ''_v_ab_dor_.json'' \<and>
   json_filename [CHR 0xA0, CHR 0xC9, CHR ''*'', CHR 0x85] = [CHR 0xE9] @ ''.json''"
proof (intro conjI)
  show "json_filename s = slug_rule s" by (rule json_filename_rule)
  show "json_filename ''2MASS J13571237+1428398'' = ''2mass_j13571237+1428398.json''"
    by code_simp
  show "json_filename ([CHR 0x09] @ '' V* AB Dor '' @ [CHR 0x0A]) = ''_v_ab_dor_.json''"
    by code_simp
  show "json_filename [CHR 0xA0, CHR 0xC9, CHR ''*'', CHR 0x85] = [CHR 0xE9] @ ''.json''"
    by code_simp
qed

section \<open>Properties of the import of one document\<close>

lemma same_config_refl [simp]: "same_config db db"
  by (simp add: same_config_def)

lemma same_config_trans: "same_config a b \<Longrightarrow> same_config b c \<Longrightarrow> same_config a c"
  by (simp add: same_config_def)

lemma same_config_journal [simp]: "same_config db (db\<lparr>journal := j\<rparr>)"
  by (simp add: same_config_def)

lemma apply_statement_config:
  "apply_statement db stmt = Inr db' \<Longrightarrow> same_config db db' \<and> journal db' = journal db"
  by (cases stmt)
     (auto simp: same_config_def set_rows_def Let_def split: sum.splits if_splits)

lemma execute_Inr:
  "execute db stmt = Inr db' \<Longrightarrow>
     same_config db db' \<and> journal db' = journal db @ [Execute stmt]"
proof -
  assume a: "execute db stmt = Inr db'"
  then have "apply_statement (db\<lparr>journal := journal db @ [Execute stmt]\<rparr>) stmt = Inr db'"
    by (simp add: execute_def Let_def split: sum.splits)
  from apply_statement_config[OF this] show ?thesis
    by (simp add: same_config_def)
qed

lemma execute_Inl:
  "execute db stmt = Inl (e, db') \<Longrightarrow> db' = db\<lparr>journal := journal db @ [Execute stmt]\<rparr>"
  by (auto simp: execute_def Let_def split: sum.splits)

lemma insert_into_Inr:
  "insert_into db t vals = Inr db' \<Longrightarrow>
     same_config db db' \<and> journal db' = journal db @ [Execute (Insert t vals)]"
  by (auto simp: insert_into_def split: sum.splits dest: execute_Inr)

lemma insert_into_Inl:
  "insert_into db t vals = Inl (e, db') \<Longrightarrow>
     same_config db db' \<and> metadata_tables db' = metadata_tables db \<and>
     (journal db' = journal db \<or> journal db' = journal db @ [Execute (Insert t vals)])"
  by (auto simp: insert_into_def split: sum.splits dest!: execute_Inl)

lemma ran_Nil: "ran db (Inr db) []"
  by (simp add: ran_def outcome_db_def)

lemma ran_step_fail:
  assumes "insert_into db t vals = Inl (e, db')"
  shows "ran db (Inl (e, db')) (Insert t vals # rest)"
proof -
  from insert_into_Inl[OF assms] have c: "same_config db db'"
    and j: "journal db' = journal db \<or> journal db' = journal db @ [Execute (Insert t vals)]"
    by auto
  from j show ?thesis
  proof
    assume "journal db' = journal db"
    then have "journal db' = journal db @ map Execute []" by simp
    with c show ?thesis unfolding ran_def outcome_db_def
      by (auto intro!: exI[of _ "[]"])
  next
    assume "journal db' = journal db @ [Execute (Insert t vals)]"
    then have "journal db' = journal db @ map Execute [Insert t vals]" by simp
    with c show ?thesis unfolding ran_def outcome_db_def
      by (auto intro!: exI[of _ "[Insert t vals]"])
  qed
qed

lemma ran_step_ok:
  assumes i: "insert_into db t vals = Inr db1" and r: "ran db1 res rest"
  shows "ran db res (Insert t vals # rest)"
proof -
  from insert_into_Inr[OF i] have c: "same_config db db1"
    and j: "journal db1 = journal db @ [Execute (Insert t vals)]" by auto
  from r obtain stmts where s: "journal (outcome_db res) = journal db1 @ map Execute stmts"
    "prefix stmts rest" "\<not> isl res \<longrightarrow> stmts = rest" and c1: "same_config db1 (outcome_db res)"
    by (auto simp: ran_def)
  from s j have "journal (outcome_db res) = journal db @ map Execute (Insert t vals # stmts)"
    by simp
  moreover from s have "prefix (Insert t vals # stmts) (Insert t vals # rest)" by simp
  ultimately show ?thesis using s(3) same_config_trans[OF c c1]
    unfolding ran_def by blast
qed

lemma ran_append:
  assumes a: "ran db (Inr db1) xs" and b: "ran db1 res ys"
  shows "ran db res (xs @ ys)"
proof -
  from a have j: "journal db1 = journal db @ map Execute xs" and c: "same_config db db1"
    by (auto simp: ran_def outcome_db_def)
  from b obtain stmts where s: "journal (outcome_db res) = journal db1 @ map Execute stmts"
    "prefix stmts ys" "\<not> isl res \<longrightarrow> stmts = ys" and c1: "same_config db1 (outcome_db res)"
    by (auto simp: ran_def)
  from s j have "journal (outcome_db res) = journal db @ map Execute (xs @ stmts)" by simp
  moreover from s have "prefix (xs @ stmts) (xs @ ys)" by simp
  ultimately show ?thesis using s(3) same_config_trans[OF c c1]
    unfolding ran_def by blast
qed

lemma ran_fail_append:
  assumes "ran db (Inl x) xs"
  shows "ran db (Inl x) (xs @ ys)"
  using assms unfolding ran_def by (auto intro: prefix_order.trans)

lemma load_json_values_ran:
  "ran db (load_json_values db source key vs)
     (map (\<lambda>v. Insert key [dict_set v (foreign_key db) source]) vs)"
proof (induction vs arbitrary: db)
  case Nil
  show ?case by (simp add: ran_Nil)
next
  case (Cons v vs)
  show ?case
  proof (cases "insert_into db key [dict_set v (foreign_key db) source]")
    case (Inl x)
    obtain e db' where x: "x = (e, db')" by (cases x)
    with Inl show ?thesis using ran_step_fail[of db key _ e db'] by (simp add: Let_def)
  next
    case (Inr db1)
    from insert_into_Inr[OF Inr] have "foreign_key db1 = foreign_key db"
      by (simp add: same_config_def)
    with Cons.IH[of db1] Inr show ?thesis
      using ran_step_ok[OF Inr] by (simp add: Let_def)
  qed
qed

lemma load_json_items_ran:
  "ran db (load_json_items db source data) (child_inserts db source data)"
proof (induction data arbitrary: db)
  case Nil
  show ?case by (simp add: ran_Nil child_inserts_def)
next
  case (Cons kv data)
  obtain key val where kv: "kv = (key, val)" by (cases kv)
  show ?case
  proof (cases "key = primary_table db")
    case True
    with kv Cons.IH[of db] show ?thesis by (simp add: child_inserts_def)
  next
    case False
    have split: "child_inserts db source (kv # data) =
        map (\<lambda>v. Insert key [dict_set v (foreign_key db) source]) val @ child_inserts db source data"
      using False kv by (simp add: child_inserts_def)
    show ?thesis
    proof (cases "load_json_values db source key val")
      case (Inl x)
      with load_json_values_ran[of db source key val]
      have "ran db (Inl x) (map (\<lambda>v. Insert key [dict_set v (foreign_key db) source]) val)" by simp
      then have "ran db (Inl x) (child_inserts db source (kv # data))"
        unfolding split by (rule ran_fail_append)
      with Inl kv False show ?thesis by simp
    next
      case (Inr db1)
      with load_json_values_ran[of db source key val]
      have r1: "ran db (Inr db1) (map (\<lambda>v. Insert key [dict_set v (foreign_key db) source]) val)"
        by simp
      then have c: "same_config db db1" by (simp add: ran_def outcome_db_def)
      then have "child_inserts db1 source data = child_inserts db source data"
        by (simp add: child_inserts_def same_config_def)
      with Cons.IH[of db1] have "ran db1 (load_json_items db1 source data) (child_inserts db source data)"
        by simp
      from ran_append[OF r1 this]
      have "ran db (load_json_items db1 source data) (child_inserts db source (kv # data))"
        by (simp add: split)
      with Inr kv False show ?thesis by simp
    qed
  qed
qed

lemma load_json_data_journal:
  assumes p: "dict_get data (primary_table db) = Inr (r0 # rest)"
      and k: "dict_get r0 (primary_table_key db) = Inr source"
  shows "\<exists>stmts.
           journal (outcome_db (load_json_data db data)) =
             journal db @ [Begin] @ map Execute stmts
               @ [if isl (load_json_data db data) then Rollback else Commit] \<and>
           prefix stmts (Insert (primary_table db) (r0 # rest) # child_inserts db source data) \<and>
           (\<not> isl (load_json_data db data) \<longrightarrow>
              stmts = Insert (primary_table db) (r0 # rest) # child_inserts db source data)"
proof -
  let ?conn = "db\<lparr>journal := journal db @ [Begin]\<rparr>"
  let ?full = "Insert (primary_table db) (r0 # rest) # child_inserts db source data"
  let ?body = "case insert_into ?conn (primary_table db) (r0 # rest) of
                 Inl x \<Rightarrow> Inl x
               | Inr conn1 \<Rightarrow> load_json_items conn1 source data"
  have eq: "load_json_data db data =
        (case ?body of
           Inl (e, db2) \<Rightarrow> Inl (e, db\<lparr>journal := journal db2 @ [Rollback]\<rparr>)
         | Inr db2 \<Rightarrow> Inr (db2\<lparr>journal := journal db2 @ [Commit]\<rparr>))"
    using p k by (simp add: load_json_data_def transaction_def)
  have ci: "child_inserts ?conn source data = child_inserts db source data"
    by (simp add: child_inserts_def)
  have body: "ran ?conn ?body ?full"
  proof (cases "insert_into ?conn (primary_table db) (r0 # rest)")
    case (Inl x)
    obtain e db' where "x = (e, db')" by (cases x)
    with Inl show ?thesis using ran_step_fail[of ?conn "primary_table db" "r0 # rest" e db']
      by simp
  next
    case (Inr conn1)
    from insert_into_Inr[OF Inr] have "same_config ?conn conn1" by simp
    then have "child_inserts conn1 source data = child_inserts db source data"
      by (simp add: child_inserts_def same_config_def)
    with load_json_items_ran[of conn1 source data]
    have "ran conn1 (load_json_items conn1 source data) (child_inserts db source data)" by simp
    from ran_step_ok[OF Inr this] Inr show ?thesis by simp
  qed
  then obtain stmts where
    j: "journal (outcome_db ?body) = journal ?conn @ map Execute stmts"
    and pre: "prefix stmts ?full" and full: "\<not> isl ?body \<longrightarrow> stmts = ?full"
    unfolding ran_def by blast
  show ?thesis
  proof (cases ?body)
    case (Inl x)
    obtain e db2 where x: "x = (e, db2)" by (cases x)
    from Inl x j have "journal db2 = journal db @ [Begin] @ map Execute stmts"
      by (simp add: outcome_db_def)
    moreover from Inl x eq have "load_json_data db data = Inl (e, db\<lparr>journal := journal db2 @ [Rollback]\<rparr>)"
      by simp
    ultimately show ?thesis using pre by (auto simp: outcome_db_def)
  next
    case (Inr db2)
    from Inr j have "journal db2 = journal db @ [Begin] @ map Execute stmts"
      by (simp add: outcome_db_def)
    moreover from Inr eq have "load_json_data db data = Inr (db2\<lparr>journal := journal db2 @ [Commit]\<rparr>)"
      by simp
    moreover from Inr full have "stmts = ?full" by simp
    ultimately show ?thesis by (auto simp: outcome_db_def)
  qed
qed

lemma child_inserts_shape:
  "s \<in> set (child_inserts db source data) \<Longrightarrow>
   \<exists>key v. s = Insert key [dict_set v (foreign_key db) source] \<and> key \<noteq> primary_table db \<and>
           map_of (dict_set v (foreign_key db) source) (foreign_key db) = Some source"
  by (auto simp: child_inserts_def map_of_dict_set)

subsection \<open>A store that accepts the statements\<close>

lemma set_rows_journal: "set_rows (db\<lparr>journal := j\<rparr>) t rs = (set_rows db t rs)\<lparr>journal := j\<rparr>"
  by (simp add: set_rows_def)

lemma table_rows_journal_upd: "table_rows (db\<lparr>journal := j\<rparr>) n = table_rows db n"
  by (simp add: table_rows_def)

lemma parent_exists_journal: "parent_exists (db\<lparr>journal := j\<rparr>) fk r = parent_exists db fk r"
  by (simp add: parent_exists_def table_rows_journal_upd split: prod.splits)

lemma child_exists_journal: "child_exists (db\<lparr>journal := j\<rparr>) t rs = child_exists db t rs"
  by (simp add: child_exists_def)

lemma apply_statement_journal:
  "apply_statement (db\<lparr>journal := j\<rparr>) s =
     (case apply_statement db s of Inl e \<Rightarrow> Inl e | Inr d \<Rightarrow> Inr (d\<lparr>journal := j\<rparr>))"
proof (cases s)
  case (Insert t vals)
  show ?thesis
  proof (cases "dict_get (metadata_tables db) t")
    case (Inl e)
    with Insert show ?thesis by simp
  next
    case (Inr tb)
    have p: "\<And>rs fk r. parent_exists ((set_rows db t rs)\<lparr>journal := j\<rparr>) fk r
                = parent_exists (set_rows db t rs) fk r"
      by (rule parent_exists_journal)
    from Insert Inr show ?thesis
      by (auto simp: Let_def set_rows_journal p)
  qed
next
  case (Delete t)
  then show ?thesis
    by (simp add: child_exists_journal set_rows_journal split: sum.splits)
qed

lemma execute_accept:
  assumes "apply_statement db s = Inr d"
  shows "execute db s = Inr (d\<lparr>journal := journal db @ [Execute s]\<rparr>)"
  using assms by (simp add: execute_def Let_def apply_statement_journal)

lemma apply_statement_table:
  "apply_statement db (Insert t vals) = Inr d \<Longrightarrow> \<exists>tb. dict_get (metadata_tables db) t = Inr tb"
  by (cases "dict_get (metadata_tables db) t") simp_all

lemma insert_into_accept:
  assumes "apply_statement db (Insert t vals) = Inr d"
  shows "insert_into db t vals = Inr (d\<lparr>journal := journal db @ [Execute (Insert t vals)]\<rparr>)"
proof -
  from apply_statement_table[OF assms] obtain tb where "dict_get (metadata_tables db) t = Inr tb" ..
  then show ?thesis using execute_accept[OF assms] by (simp add: insert_into_def)
qed

lemma run_statements_journal:
  "run_statements (db\<lparr>journal := j\<rparr>) ss = map_option (\<lambda>d. d\<lparr>journal := j\<rparr>) (run_statements db ss)"
proof (induction ss arbitrary: db)
  case Nil
  show ?case by simp
next
  case (Cons s ss)
  show ?case
  proof (cases "apply_statement db s")
    case (Inl e)
    then show ?thesis by (simp add: apply_statement_journal)
  next
    case (Inr d)
    with Cons.IH[of d] show ?thesis by (simp add: apply_statement_journal)
  qed
qed

lemma run_statements_append:
  "run_statements db (xs @ ys) =
     (case run_statements db xs of None \<Rightarrow> None | Some d \<Rightarrow> run_statements d ys)"
  by (induction xs arbitrary: db) (simp_all split: sum.splits)

lemma run_statements_config:
  "run_statements db ss = Some d \<Longrightarrow> same_config db d \<and> journal d = journal db"
proof (induction ss arbitrary: db)
  case Nil
  then show ?case by simp
next
  case (Cons s ss)
  then obtain d1 where a: "apply_statement db s = Inr d1" and r: "run_statements d1 ss = Some d"
    by (auto split: sum.splits)
  from apply_statement_config[OF a] Cons.IH[OF r] show ?case
    by (auto intro: same_config_trans)
qed

lemma load_json_values_accept:
  "run_statements db (map (\<lambda>v. Insert key [dict_set v (foreign_key db) source]) vs) = Some dbf \<Longrightarrow>
   load_json_values db source key vs =
     Inr (dbf\<lparr>journal := journal db
            @ map Execute (map (\<lambda>v. Insert key [dict_set v (foreign_key db) source]) vs)\<rparr>)"
proof (induction vs arbitrary: db dbf)
  case Nil
  then show ?case by simp
next
  case (Cons v vs)
  let ?s = "Insert key [dict_set v (foreign_key db) source]"
  let ?rest = "map (\<lambda>v. Insert key [dict_set v (foreign_key db) source]) vs"
  from Cons.prems obtain d1 where a: "apply_statement db ?s = Inr d1"
    and r: "run_statements d1 ?rest = Some dbf"
    by (auto split: sum.splits)
  let ?d1 = "d1\<lparr>journal := journal db @ [Execute ?s]\<rparr>"
  have i: "insert_into db key [dict_set v (foreign_key db) source] = Inr ?d1"
    by (rule insert_into_accept[OF a])
  from apply_statement_config[OF a] have fk: "foreign_key ?d1 = foreign_key db"
    by (simp add: same_config_def)
  have "run_statements ?d1 ?rest = Some (dbf\<lparr>journal := journal db @ [Execute ?s]\<rparr>)"
    using r by (simp add: run_statements_journal)
  then have "run_statements ?d1 (map (\<lambda>v. Insert key [dict_set v (foreign_key ?d1) source]) vs)
      = Some (dbf\<lparr>journal := journal db @ [Execute ?s]\<rparr>)"
    by (simp only: fk)
  from Cons.IH[OF this] have "load_json_values ?d1 source key vs =
     Inr (dbf\<lparr>journal := journal db @ [Execute ?s] @ map Execute ?rest\<rparr>)"
    by (simp add: fk)
  with i show ?case by (simp add: Let_def)
qed

lemma load_json_items_accept:
  "run_statements db (child_inserts db source data) = Some dbf \<Longrightarrow>
   load_json_items db source data =
     Inr (dbf\<lparr>journal := journal db @ map Execute (child_inserts db source data)\<rparr>)"
proof (induction data arbitrary: db dbf)
  case Nil
  then show ?case by (simp add: child_inserts_def)
next
  case (Cons kv data)
  obtain key val where kv: "kv = (key, val)" by (cases kv)
  show ?case
  proof (cases "key = primary_table db")
    case True
    with kv have "child_inserts db source (kv # data) = child_inserts db source data"
      by (simp add: child_inserts_def)
    with Cons True kv show ?thesis by simp
  next
    case False
    define xs where "xs = map (\<lambda>v. Insert key [dict_set v (foreign_key db) source]) val"
    define ys where "ys = child_inserts db source data"
    have split: "child_inserts db source (kv # data) = xs @ ys"
      using False kv by (simp add: child_inserts_def xs_def ys_def)
    from Cons.prems obtain d1 where x: "run_statements db xs = Some d1"
      and y: "run_statements d1 ys = Some dbf"
      by (auto simp: split run_statements_append split: option.splits)
    define d1' where "d1' = d1\<lparr>journal := journal db @ map Execute xs\<rparr>"
    have v: "load_json_values db source key val = Inr d1'"
      using load_json_values_accept[of db key source val d1] x by (simp add: xs_def d1'_def)
    from run_statements_config[OF x] have c: "same_config db d1'"
      by (simp add: same_config_def d1'_def)
    then have ci: "child_inserts d1' source data = ys"
      by (simp add: child_inserts_def same_config_def ys_def)
    have j: "journal d1' = journal db @ map Execute xs" by (simp add: d1'_def)
    have "run_statements d1' ys = Some (dbf\<lparr>journal := journal db @ map Execute xs\<rparr>)"
      using y by (simp add: run_statements_journal d1'_def)
    then have "run_statements d1' (child_inserts d1' source data)
                 = Some (dbf\<lparr>journal := journal db @ map Execute xs\<rparr>)"
      by (simp only: ci)
    from Cons.IH[OF this] have "load_json_items d1' source data =
       Inr (dbf\<lparr>journal := journal db @ map Execute xs @ map Execute ys\<rparr>)"
      by (simp add: ci j)
    moreover have "load_json_items db source (kv # data) = load_json_items d1' source data"
      using v kv False by simp
    ultimately show ?thesis by (simp add: split)
  qed
qed

lemma load_json_data_accept:
  assumes p: "dict_get data (primary_table db) = Inr (r0 # rest)"
      and k: "dict_get r0 (primary_table_key db) = Inr source"
      and r: "run_statements db
                (Insert (primary_table db) (r0 # rest) # child_inserts db source data) = Some dbf"
  shows "load_json_data db data =
           Inr (dbf\<lparr>journal := journal db @ [Begin]
                  @ map Execute (Insert (primary_table db) (r0 # rest) # child_inserts db source data)
                  @ [Commit]\<rparr>)"
proof -
  define conn where "conn = db\<lparr>journal := journal db @ [Begin]\<rparr>"
  define s where "s = Insert (primary_table db) (r0 # rest)"
  define ys where "ys = child_inserts db source data"
  from r obtain d1 where a: "apply_statement db s = Inr d1"
    and y: "run_statements d1 ys = Some dbf"
    by (auto simp: s_def ys_def split: sum.splits)
  have a': "apply_statement conn s = Inr (d1\<lparr>journal := journal db @ [Begin]\<rparr>)"
    unfolding conn_def apply_statement_journal a by simp
  define d1' where "d1' = d1\<lparr>journal := journal db @ [Begin, Execute s]\<rparr>"
  have i: "insert_into conn (primary_table db) (r0 # rest) = Inr d1'"
    using insert_into_accept[of conn "primary_table db" "r0 # rest"] a'
    by (simp add: s_def d1'_def conn_def)
  from apply_statement_config[OF a] have "same_config db d1'"
    by (simp add: same_config_def d1'_def)
  then have ci: "child_inserts d1' source data = ys"
    by (simp add: child_inserts_def same_config_def ys_def)
  have j: "journal d1' = journal db @ [Begin, Execute s]" by (simp add: d1'_def)
  have "run_statements d1' ys = Some (dbf\<lparr>journal := journal db @ [Begin, Execute s]\<rparr>)"
    using y by (simp add: run_statements_journal d1'_def)
  then have "run_statements d1' (child_inserts d1' source data)
               = Some (dbf\<lparr>journal := journal db @ [Begin, Execute s]\<rparr>)"
    by (simp only: ci)
  from load_json_items_accept[OF this]
  have items: "load_json_items d1' source data =
      Inr (dbf\<lparr>journal := journal db @ [Begin, Execute s] @ map Execute ys\<rparr>)"
    by (simp add: ci j)
  have "load_json_data db data =
          transaction (\<lambda>c. case insert_into c (primary_table db) (r0 # rest) of
                              Inl x \<Rightarrow> Inl x
                            | Inr c1 \<Rightarrow> load_json_items c1 source data) db"
    using p k by (simp add: load_json_data_def)
  also have "\<dots> = Inr (dbf\<lparr>journal := journal db @ [Begin, Execute s] @ map Execute ys @ [Commit]\<rparr>)"
    using i items by (simp add: transaction_def conn_def)
  finally show ?thesis by (simp add: s_def ys_def)
qed

lemma example_doc_statements:
  "Insert (primary_table example_db) [hd (snd (hd example_doc))]
     # child_inserts example_db (VStr ''Gl 229'') example_doc =
   [Insert ''Sources'' [[(''source'', VStr ''Gl 229''), (''ra'', VFloat 92.6), (''dec'', VNull),
                         (''reference'', VStr ''Schm10'')]],
    Insert ''Names'' [[(''other_name'', VStr ''Gl 229''), (''source'', VStr ''Gl 229'')]],
    Insert ''Names'' [[(''other_name'', VStr ''HD 42581''), (''source'', VStr ''Gl 229'')]]]"
  by (simp add: child_inserts_def example_doc_def example_db_def)

lemma example_doc_accepted:
  "\<exists>dbf. run_statements example_db
     [Insert ''Sources'' [[(''source'', VStr ''Gl 229''), (''ra'', VFloat 92.6), (''dec'', VNull),
                         (''reference'', VStr ''Schm10'')]],
      Insert ''Names'' [[(''other_name'', VStr ''Gl 229''), (''source'', VStr ''Gl 229'')]],
      Insert ''Names'' [[(''other_name'', VStr ''HD 42581''), (''source'', VStr ''Gl 229'')]]]
     = Some dbf \<and>
     table_rows dbf ''Names'' =
       [[(''source'', VStr ''2MASS J13571237+1428398''),
         (''other_name'', VStr ''2MASS J13571237+1428398'')],
        [(''source'', VStr ''2MASS J13571237+1428398''),
         (''other_name'', VStr ''SDSS J135712.40+142839.8'')],
        [(''source'', VStr ''Gl 229''), (''other_name'', VStr ''Gl 229'')],
        [(''source'', VStr ''Gl 229''), (''other_name'', VStr ''HD 42581'')]]"
proof -
  have "case run_statements example_db
     [Insert ''Sources'' [[(''source'', VStr ''Gl 229''), (''ra'', VFloat 92.6), (''dec'', VNull),
                         (''reference'', VStr ''Schm10'')]],
      Insert ''Names'' [[(''other_name'', VStr ''Gl 229''), (''source'', VStr ''Gl 229'')]],
      Insert ''Names'' [[(''other_name'', VStr ''HD 42581''), (''source'', VStr ''Gl 229'')]]] of
     None \<Rightarrow> False
   | Some dbf \<Rightarrow> table_rows dbf ''Names'' =
       [[(''source'', VStr ''2MASS J13571237+1428398''),
         (''other_name'', VStr ''2MASS J13571237+1428398'')],
        [(''source'', VStr ''2MASS J13571237+1428398''),
         (''other_name'', VStr ''SDSS J135712.40+142839.8'')],
        [(''source'', VStr ''Gl 229''), (''other_name'', VStr ''Gl 229'')],
        [(''source'', VStr ''Gl 229''), (''other_name'', VStr ''HD 42581'')]]"
    by code_simp
  then show ?thesis by (simp split: option.splits)
qed

text \<open>
  Claim C6.  When the file holds a document whose primary-table entry has a first row with
  an identity value, \<^verbatim>\<open>load_json\<close> opens one transaction, and the statements it
  executes are a prefix of: the insert of the whole primary-table entry, then, for every
  other key in turn, one insert per row with the foreign-key column set to that identity
  value.  A run that raises rolls back.  When the store accepts these statements one after
  the other, \<^verbatim>\<open>load_json\<close> returns normally: it has executed every one of them, in
  this order, between \<open>Begin\<close> and \<open>Commit\<close>, and the tables are those the statements leave.
\<close>

theorem load_json_insertion_order:
  assumes "read_file fs dir filename = Inr content" and "decode content = Inr data"
      and "dict_get data (primary_table db) = Inr (r0 # rest)"
      and "dict_get r0 (primary_table_key db) = Inr source"
  shows "(\<exists>stmts.
           journal (outcome_db (load_json db fs dir filename)) =
             journal db @ [Begin] @ map Execute stmts
               @ [if isl (load_json db fs dir filename) then Rollback else Commit] \<and>
           prefix stmts (Insert (primary_table db) (r0 # rest) # child_inserts db source data) \<and>
           (\<not> isl (load_json db fs dir filename) \<longrightarrow>
              stmts = Insert (primary_table db) (r0 # rest) # child_inserts db source data)) \<and>
         (\<forall>s \<in> set (child_inserts db source data).
            \<exists>key v. s = Insert key [dict_set v (foreign_key db) source] \<and>
                    key \<noteq> primary_table db \<and>
                    map_of (dict_set v (foreign_key db) source) (foreign_key db) = Some source) \<and>
         (\<forall>dbf. run_statements db
                   (Insert (primary_table db) (r0 # rest) # child_inserts db source data) = Some dbf
                \<longrightarrow> load_json db fs dir filename =
                      Inr (dbf\<lparr>journal := journal db @ [Begin]
                             @ map Execute (Insert (primary_table db) (r0 # rest)
                                              # child_inserts db source data)
                             @ [Commit]\<rparr>))"
proof -
  have eq: "load_json db fs dir filename = load_json_data db data"
    using assms(1,2) by (simp add: load_json_def)
  have a: "\<exists>stmts.
           journal (outcome_db (load_json db fs dir filename)) =
             journal db @ [Begin] @ map Execute stmts
               @ [if isl (load_json db fs dir filename) then Rollback else Commit] \<and>
           prefix stmts (Insert (primary_table db) (r0 # rest) # child_inserts db source data) \<and>
           (\<not> isl (load_json db fs dir filename) \<longrightarrow>
              stmts = Insert (primary_table db) (r0 # rest) # child_inserts db source data)"
    unfolding eq by (rule load_json_data_journal[OF assms(3,4)])
  have b: "\<forall>s \<in> set (child_inserts db source data).
            \<exists>key v. s = Insert key [dict_set v (foreign_key db) source] \<and>
                    key \<noteq> primary_table db \<and>
                    map_of (dict_set v (foreign_key db) source) (foreign_key db) = Some source"
    using child_inserts_shape[of _ db source data] by blast
  have c: "\<forall>dbf. run_statements db
                   (Insert (primary_table db) (r0 # rest) # child_inserts db source data) = Some dbf
                \<longrightarrow> load_json db fs dir filename =
                      Inr (dbf\<lparr>journal := journal db @ [Begin]
                             @ map Execute (Insert (primary_table db) (r0 # rest)
                                              # child_inserts db source data)
                             @ [Commit]\<rparr>)"
    unfolding eq using load_json_data_accept[OF assms(3,4)] by blast
  from a b c show ?thesis by (intro conjI)
qed

text \<open>
  The example document, read from the example directory into the example store with
  foreign-key checks on: the three inserts run and are committed, and \<open>Names\<close> holds the two
  new rows after the two it had.
\<close>

theorem load_json_insertion_order_witness:
  "read_file example_files (Sub ''source'') ''gl_229.json'' = Inr (encode example_doc) \<and>
   decode (encode example_doc) = Inr example_doc \<and>
   dict_get example_doc (primary_table example_db) = Inr (hd (snd (hd example_doc)) # []) \<and>
   dict_get (hd (snd (hd example_doc))) (primary_table_key example_db) = Inr (VStr ''Gl 229'') \<and>
   (\<exists>dbf.
      load_json example_db example_files (Sub ''source'') ''gl_229.json'' =
        Inr (dbf\<lparr>journal :=
               [Begin,
                Execute (Insert ''Sources'' [[(''source'', VStr ''Gl 229''), (''ra'', VFloat 92.6),
                                            (''dec'', VNull), (''reference'', VStr ''Schm10'')]]),
                Execute (Insert ''Names'' [[(''other_name'', VStr ''Gl 229''),
                                          (''source'', VStr ''Gl 229'')]]),
                Execute (Insert ''Names'' [[(''other_name'', VStr ''HD 42581''),
                                          (''source'', VStr ''Gl 229'')]]),
                Commit]\<rparr>) \<and>
      table_rows dbf ''Names'' =
        [[(''source'', VStr ''2MASS J13571237+1428398''),
          (''other_name'', VStr ''2MASS J13571237+1428398'')],
         [(''source'', VStr ''2MASS J13571237+1428398''),
          (''other_name'', VStr ''SDSS J135712.40+142839.8'')],
         [(''source'', VStr ''Gl 229''), (''other_name'', VStr ''Gl 229'')],
         [(''source'', VStr ''Gl 229''), (''other_name'', VStr ''HD 42581'')]])"
proof -
  have r: "read_file example_files (Sub ''source'') ''gl_229.json'' = Inr (encode example_doc)"
    by (simp add: read_file_def example_files_def)
  have d: "decode (encode example_doc) = Inr example_doc"
    by (simp add: decode_def encode_def example_doc_def encode_row_def json_serializer_def
          datetime_json_parser_def datetime_json_parser_value_def json_plain_def
          parse_date_def parse_datetime_def)
  have p: "dict_get example_doc (primary_table example_db) = Inr (hd (snd (hd example_doc)) # [])"
    by (simp add: dict_get_def example_doc_def example_db_def)
  have k: "dict_get (hd (snd (hd example_doc))) (primary_table_key example_db) = Inr (VStr ''Gl 229'')"
    by (simp add: dict_get_def example_doc_def example_db_def)
  from example_doc_accepted obtain dbf where
    run: "run_statements example_db
       [Insert ''Sources'' [[(''source'', VStr ''Gl 229''), (''ra'', VFloat 92.6), (''dec'', VNull),
                         (''reference'', VStr ''Schm10'')]],
        Insert ''Names'' [[(''other_name'', VStr ''Gl 229''), (''source'', VStr ''Gl 229'')]],
        Insert ''Names'' [[(''other_name'', VStr ''HD 42581''), (''source'', VStr ''Gl 229'')]]]
       = Some dbf"
    and names: "table_rows dbf ''Names'' =
       [[(''source'', VStr ''2MASS J13571237+1428398''),
         (''other_name'', VStr ''2MASS J13571237+1428398'')],
        [(''source'', VStr ''2MASS J13571237+1428398''),
         (''other_name'', VStr ''SDSS J135712.40+142839.8'')],
        [(''source'', VStr ''Gl 229''), (''other_name'', VStr ''Gl 229'')],
        [(''source'', VStr ''Gl 229''), (''other_name'', VStr ''HD 42581'')]]"
    by (elim exE conjE)
  have j: "journal example_db = []" by (simp add: example_db_def)
  from load_json_insertion_order[OF r d p k]
  have "\<forall>dbf. run_statements example_db
                   (Insert (primary_table example_db) [hd (snd (hd example_doc))]
                      # child_inserts example_db (VStr ''Gl 229'') example_doc) = Some dbf
                \<longrightarrow> load_json example_db example_files (Sub ''source'') ''gl_229.json'' =
                      Inr (dbf\<lparr>journal := journal example_db @ [Begin]
                             @ map Execute (Insert (primary_table example_db) [hd (snd (hd example_doc))]
                                              # child_inserts example_db (VStr ''Gl 229'') example_doc)
                             @ [Commit]\<rparr>)"
    by (elim conjE)
  with run have l: "load_json example_db example_files (Sub ''source'') ''gl_229.json'' =
        Inr (dbf\<lparr>journal :=
               [Begin,
                Execute (Insert ''Sources'' [[(''source'', VStr ''Gl 229''), (''ra'', VFloat 92.6),
                                            (''dec'', VNull), (''reference'', VStr ''Schm10'')]]),
                Execute (Insert ''Names'' [[(''other_name'', VStr ''Gl 229''),
                                          (''source'', VStr ''Gl 229'')]]),
                Execute (Insert ''Names'' [[(''other_name'', VStr ''HD 42581''),
                                          (''source'', VStr ''Gl 229'')]]),
                Commit]\<rparr>)"
    unfolding example_doc_statements j by simp
  from r d p k l names show ?thesis by (intro conjI exI[of _ dbf])
qed

text \<open>
  Claim C10.  When the document has no primary-table entry, or an empty one,
  \<^verbatim>\<open>load_json\<close> raises (\<open>KeyError\<close> or \<open>IndexError\<close>) and the store is the store it was
  given, journal included: no transaction was opened and no statement executed.
\<close>

theorem load_json_without_primary:
  assumes "read_file fs dir filename = Inr content" and "decode content = Inr data"
      and "map_of data (primary_table db) = None \<or> map_of data (primary_table db) = Some []"
  shows "load_json db fs dir filename =
           Inl (if map_of data (primary_table db) = None then KeyError else IndexError, db)"
  using assms by (auto simp: load_json_def load_json_data_def dict_get_def)

text \<open>The export of an unknown name is the empty document; loading it raises \<open>KeyError\<close>.\<close>

theorem load_json_without_primary_witness:
  "read_file example_files (Sub ''source'') ''nobody.json'' = Inr (encode []) \<and>
   decode (encode []) = Inr [] \<and>
   map_of ([] :: document) (primary_table example_db) = None \<and>
   load_json example_db example_files (Sub ''source'') ''nobody.json'' = Inl (KeyError, example_db)"
proof -
  have r: "read_file example_files (Sub ''source'') ''nobody.json'' = Inr (encode [])"
    by (simp add: read_file_def example_files_def)
  have d: "decode (encode []) = Inr []"
    by (simp add: decode_def encode_def)
  have m: "map_of ([] :: document) (primary_table example_db) = None
           \<or> map_of ([] :: document) (primary_table example_db) = Some []" by simp
  from load_json_without_primary[OF r d m] r d show ?thesis by simp
qed

section \<open>Clearing the tables\<close>

lemma children_done_append:
  "children_done db D (xs @ ys) \<longleftrightarrow> children_done db D xs \<and> children_done db (D \<union> set xs) ys"
  by (induction xs arbitrary: D) (auto simp: insert_commute Un_commute)

lemma children_done_mono:
  "children_done db D xs \<Longrightarrow> D \<subseteq> E \<Longrightarrow> children_done db E xs"
proof (induction xs arbitrary: D E)
  case Nil then show ?case by simp
next
  case (Cons t ts)
  from Cons.prems have "children_done db (insert t D) ts" "insert t D \<subseteq> insert t E" by auto
  from Cons.IH[OF this] Cons.prems show ?case by auto
qed

lemma parents_first_rev:
  "parents_first db xs \<Longrightarrow> children_done db {} (rev xs)"
proof (induction xs)
  case Nil then show ?case by simp
next
  case (Cons t ts)
  then have "children_done db {} (rev ts)" and c: "set (children db t) \<subseteq> set ts" by auto
  then show ?case by (simp add: children_done_append)
qed

lemma schema_of_keys: "schema_of db' = schema_of db \<Longrightarrow>
    dict_keys (metadata_tables db') = dict_keys (metadata_tables db)"
proof -
  assume "schema_of db' = schema_of db"
  then have "map fst (schema_of db') = map fst (schema_of db)" by simp
  then show ?thesis by (simp add: schema_of_def dict_keys_def comp_def case_prod_unfold)
qed

lemma schema_of_children: "schema_of db' = schema_of db \<Longrightarrow> children db' t = children db t"
proof -
  assume a: "schema_of db' = schema_of db"
  have "\<And>d. children d t =
      map fst (filter (\<lambda>(n, cs, fks). n \<noteq> t \<and> (\<exists>(col, u, c2) \<in> set fks. u = t)) (schema_of d))"
    by (simp add: children_def schema_of_def filter_map comp_def case_prod_unfold)
  with a show ?thesis by simp
qed

lemma schema_of_set_rows [simp]: "schema_of (set_rows db t rs) = schema_of db"
  by (simp add: schema_of_def set_rows_def comp_def case_prod_unfold)

lemma schema_of_journal [simp]: "schema_of (db\<lparr>journal := j\<rparr>) = schema_of db"
  by (simp add: schema_of_def)

lemma map_of_set_rows:
  "map_of (metadata_tables (set_rows db t rs)) n =
     (case map_of (metadata_tables db) n of
        None \<Rightarrow> None
      | Some tb \<Rightarrow> Some (if n = t then tb\<lparr>rows := rs\<rparr> else tb))"
proof -
  have "\<And>xs. map_of (map (\<lambda>(n, tb). if n = t then (n, tb\<lparr>rows := rs\<rparr>) else (n, tb)) xs) n =
     (case map_of xs n of None \<Rightarrow> None | Some tb \<Rightarrow> Some (if n = t then tb\<lparr>rows := rs\<rparr> else tb))"
    subgoal for xs by (induction xs) auto
    done
  then show ?thesis by (simp add: set_rows_def)
qed

lemma table_rows_set_rows:
  "table_rows (set_rows db t rs) n =
     (if n = t \<and> t \<in> set (dict_keys (metadata_tables db)) then rs else table_rows db n)"
proof (cases "map_of (metadata_tables db) n")
  case None
  then have "n \<notin> set (dict_keys (metadata_tables db))"
    by (simp add: dict_keys_def map_of_eq_None_iff)
  with None show ?thesis by (auto simp: table_rows_def map_of_set_rows)
next
  case (Some tb)
  then have "n \<in> set (dict_keys (metadata_tables db))"
    by (metis dict_keys_def domI dom_map_of_conv_image_fst set_map)
  with Some show ?thesis by (auto simp: table_rows_def map_of_set_rows)
qed

lemma table_rows_journal [simp]: "table_rows (db\<lparr>journal := j\<rparr>) n = table_rows db n"
  by (simp add: table_rows_def)

lemma no_child_exists:
  assumes d: "distinct (dict_keys (metadata_tables db))"
      and e: "\<forall>n \<in> set (children db t). table_rows db n = []"
  shows "\<not> child_exists db t rs"
proof
  assume "child_exists db t rs"
  then obtain n tb col c2 r' where m: "(n, tb) \<in> set (metadata_tables db)" and nt: "n \<noteq> t"
    and fk: "(col, t, c2) \<in> set (foreign_keys tb)" and r': "r' \<in> set (rows tb)"
    by (auto simp: child_exists_def)
  from m nt fk have "n \<in> set (children db t)"
    by (force simp: children_def)
  with e have "table_rows db n = []" by simp
  moreover from d m have "map_of (metadata_tables db) n = Some tb"
    by (simp add: dict_keys_def)
  ultimately have "rows tb = []" by (simp add: table_rows_def)
  with r' show False by simp
qed

lemma delete_step:
  assumes d: "distinct (dict_keys (metadata_tables db))"
      and t: "t \<in> set (dict_keys (metadata_tables db))"
      and e: "\<forall>n \<in> set (children db t). table_rows db n = []"
  shows "transaction (\<lambda>conn. case dict_get (metadata_tables conn) t of
                                  Inl e \<Rightarrow> Inl (e, conn)
                                | Inr tb \<Rightarrow> execute conn (Delete t)) db
         = Inr ((set_rows db t [])\<lparr>journal := journal db @ [Begin, Execute (Delete t), Commit]\<rparr>)"
proof -
  from t obtain tb where tb: "map_of (metadata_tables db) t = Some tb"
    by (metis dict_keys_def domD dom_map_of_conv_image_fst set_map)
  let ?c = "db\<lparr>journal := journal db @ [Begin]\<rparr>"
  let ?c1 = "?c\<lparr>journal := journal ?c @ [Execute (Delete t)]\<rparr>"
  have "\<not> child_exists ?c1 t (rows tb)"
    by (rule no_child_exists) (use d e in \<open>simp_all add: children_def\<close>)
  then have "execute ?c (Delete t) = Inr (set_rows ?c1 t [])"
    using tb by (simp add: execute_def Let_def dict_get_def)
  then show ?thesis using tb by (simp add: transaction_def dict_get_def set_rows_def)
qed

lemma schema_of_children_done:
  assumes "schema_of db' = schema_of db"
  shows "children_done db' D ts = children_done db D ts"
proof (induction ts arbitrary: D)
  case Nil
  show ?case by simp
next
  case (Cons t ts)
  have "children db' t = children db t" by (rule schema_of_children[OF assms])
  with Cons show ?case by simp
qed

lemma same_config_set_rows [simp]: "same_config db (set_rows db t rs)"
  by (simp add: same_config_def set_rows_def)

lemma clear_tables_ok:
  assumes "distinct (dict_keys (metadata_tables db))"
      and "set ts \<subseteq> set (dict_keys (metadata_tables db))"
      and "\<forall>n \<in> D. table_rows db n = []"
      and "children_done db D ts"
  shows "\<exists>db'. clear_tables db ts = Inr db' \<and> schema_of db' = schema_of db \<and>
           same_config db db' \<and>
           (\<forall>n. table_rows db' n = (if n \<in> set ts then [] else table_rows db n)) \<and>
           journal db' = journal db @ delete_events ts"
  using assms
proof (induction ts arbitrary: db D)
  case Nil
  show ?case by (simp add: delete_events_def)
next
  case (Cons t ts)
  let ?db1 = "(set_rows db t [])\<lparr>journal := journal db @ [Begin, Execute (Delete t), Commit]\<rparr>"
  from Cons.prems(2) have t: "t \<in> set (dict_keys (metadata_tables db))" by simp
  from Cons.prems(4) have sub: "set (children db t) \<subseteq> D"
    and cd: "children_done db (insert t D) ts" by simp_all
  from sub Cons.prems(3) have e: "\<forall>n \<in> set (children db t). table_rows db n = []"
    by blast
  have step: "transaction (\<lambda>conn. case dict_get (metadata_tables conn) t of
                                  Inl e \<Rightarrow> Inl (e, conn)
                                | Inr tb \<Rightarrow> execute conn (Delete t)) db = Inr ?db1"
    by (rule delete_step[OF Cons.prems(1) t e])
  have sch: "schema_of ?db1 = schema_of db" by simp
  have keys: "dict_keys (metadata_tables ?db1) = dict_keys (metadata_tables db)"
    by (rule schema_of_keys[OF sch])
  have rows1: "\<And>n. table_rows ?db1 n = (if n = t then [] else table_rows db n)"
    using t by (simp add: table_rows_set_rows)
  have "\<exists>db'. clear_tables ?db1 ts = Inr db' \<and> schema_of db' = schema_of ?db1 \<and>
           same_config ?db1 db' \<and>
           (\<forall>n. table_rows db' n = (if n \<in> set ts then [] else table_rows ?db1 n)) \<and>
           journal db' = journal ?db1 @ delete_events ts"
  proof (rule Cons.IH[where D = "insert t D"])
    show "distinct (dict_keys (metadata_tables ?db1))" using Cons.prems(1) keys by simp
    show "set ts \<subseteq> set (dict_keys (metadata_tables ?db1))" using Cons.prems(2) keys by simp
    show "\<forall>n \<in> insert t D. table_rows ?db1 n = []" using Cons.prems(3) rows1 by simp
    show "children_done ?db1 (insert t D) ts"
      using cd by (simp only: schema_of_children_done[OF sch])
  qed
  then obtain db' where r: "clear_tables ?db1 ts = Inr db'" "schema_of db' = schema_of ?db1"
    "same_config ?db1 db'"
    "\<forall>n. table_rows db' n = (if n \<in> set ts then [] else table_rows ?db1 n)"
    "journal db' = journal ?db1 @ delete_events ts" by blast
  have c: "same_config db ?db1" by (simp add: same_config_def set_rows_def)
  have "clear_tables db (t # ts) = Inr db'" using step r(1) by simp
  moreover have "schema_of db' = schema_of db" using r(2) sch by simp
  moreover have "same_config db db'" by (rule same_config_trans[OF c r(3)])
  moreover have "\<forall>n. table_rows db' n = (if n \<in> set (t # ts) then [] else table_rows db n)"
    using r(4) rows1 by simp
  moreover have "journal db' = journal db @ delete_events (t # ts)"
    using r(5) by (simp add: delete_events_def)
  ultimately show ?case by blast
qed

lemma before_Cons: "before xs a b \<Longrightarrow> before (x # xs) a b"
proof -
  assume "before xs a b"
  then obtain i j where "i < j" "j < length xs" "xs ! i = a" "xs ! j = b"
    by (auto simp: before_def)
  then have "Suc i < Suc j \<and> Suc j < length (x # xs) \<and> (x # xs) ! Suc i = a \<and> (x # xs) ! Suc j = b"
    by simp
  then show ?thesis unfolding before_def by blast
qed

lemma before_head: "b \<in> set xs \<Longrightarrow> before (a # xs) a b"
proof -
  assume "b \<in> set xs"
  then obtain j where "j < length xs" "xs ! j = b" by (auto simp: in_set_conv_nth)
  then have "0 < Suc j \<and> Suc j < length (a # xs) \<and> (a # xs) ! 0 = a \<and> (a # xs) ! Suc j = b"
    by simp
  then show ?thesis unfolding before_def by blast
qed

lemma before_rev: "before xs a b \<Longrightarrow> before (rev xs) b a"
proof -
  assume "before xs a b"
  then obtain i j where ij: "i < j" "j < length xs" "xs ! i = a" "xs ! j = b"
    by (auto simp: before_def)
  let ?n = "length xs"
  have "?n - Suc j < ?n - Suc i" "?n - Suc i < length (rev xs)" using ij by auto
  moreover have "rev xs ! (?n - Suc j) = b" using ij by (simp add: rev_nth)
  moreover have "rev xs ! (?n - Suc i) = a" using ij by (simp add: rev_nth)
  ultimately show ?thesis unfolding before_def by blast
qed

lemma before_trans:
  assumes "distinct xs" and "before xs a b" and "before xs b c"
  shows "before xs a c"
proof -
  from assms(2) obtain i j where ij: "i < j" "j < length xs" "xs ! i = a" "xs ! j = b"
    by (auto simp: before_def)
  from assms(3) obtain j' k where jk: "j' < k" "k < length xs" "xs ! j' = b" "xs ! k = c"
    by (auto simp: before_def)
  from jk have j': "j' < length xs" by simp
  from ij jk have "xs ! j = xs ! j'" by simp
  with assms(1) ij(2) j' have "j = j'" by (simp add: nth_eq_iff_index_eq)
  with ij jk have "i < k" by simp
  with ij jk show ?thesis unfolding before_def by blast
qed

lemma parents_first_before:
  "parents_first db xs \<Longrightarrow> u \<in> set xs \<Longrightarrow> t \<in> set (children db u) \<Longrightarrow> before xs u t"
proof (induction xs)
  case Nil then show ?case by simp
next
  case (Cons x xs)
  show ?case
  proof (cases "u = x")
    case True
    with Cons.prems have "t \<in> set xs" by auto
    with True show ?thesis by (simp add: before_head)
  next
    case False
    with Cons have "before xs u t" by simp
    then show ?thesis by (rule before_Cons)
  qed
qed

lemma references_before:
  assumes "dependency_sorted db" and "(t, u) \<in> (references db)\<^sup>+"
  shows "before (rev (sorted_tables db)) t u"
  using assms(2)
proof (induction rule: trancl_induct)
  case (base u)
  then have "t \<in> set (children db u)" "u \<in> set (sorted_tables db)"
    using assms(1) by (auto simp: references_def dependency_sorted_def)
  moreover from assms(1) have "parents_first db (sorted_tables db)"
    by (simp add: dependency_sorted_def)
  ultimately have "before (sorted_tables db) u t"
    using parents_first_before by blast
  then show ?case by (rule before_rev)
next
  case (step u v)
  then have "u \<in> set (children db v)" "v \<in> set (sorted_tables db)"
    using assms(1) by (auto simp: references_def dependency_sorted_def)
  moreover from assms(1) have "parents_first db (sorted_tables db)"
    by (simp add: dependency_sorted_def)
  ultimately have "before (sorted_tables db) v u"
    using parents_first_before by blast
  then have uv: "before (rev (sorted_tables db)) u v" by (rule before_rev)
  have "distinct (rev (sorted_tables db))"
    using assms(1) by (simp add: dependency_sorted_def)
  then show ?case using step.IH uv by (rule before_trans)
qed

text \<open>
  Claim C7.  When \<^verbatim>\<open>sorted_tables\<close> lists the tables in dependency order, the
  clearing phase of \<^verbatim>\<open>load_database\<close> returns normally, whether or not the engine
  checks foreign keys: no delete raises.  It leaves every table empty, it deletes the
  tables in the reverse of \<^verbatim>\<open>sorted_tables\<close>, one committed transaction each, and
  in that order a table stands before every table it references, directly or through
  other tables.
\<close>

theorem clear_tables_dependency_safe:
  assumes "dependency_sorted db"
  shows "\<exists>db'. clear_database db = Inr db' \<and>
           (\<forall>t. table_rows db' t = []) \<and>
           journal db' = journal db @ delete_events (rev (sorted_tables db)) \<and>
           (\<forall>(t, u) \<in> (references db)\<^sup>+. before (rev (sorted_tables db)) t u)"
proof -
  have "\<exists>db'. clear_tables db (rev (sorted_tables db)) = Inr db' \<and> schema_of db' = schema_of db \<and>
           same_config db db' \<and>
           (\<forall>n. table_rows db' n = (if n \<in> set (rev (sorted_tables db)) then [] else table_rows db n)) \<and>
           journal db' = journal db @ delete_events (rev (sorted_tables db))"
  proof (rule clear_tables_ok[where D = "{}"])
    show "distinct (dict_keys (metadata_tables db))"
      using assms by (simp add: dependency_sorted_def)
    show "set (rev (sorted_tables db)) \<subseteq> set (dict_keys (metadata_tables db))"
      using assms by (simp add: dependency_sorted_def)
    show "\<forall>n \<in> {}. table_rows db n = []" by simp
    show "children_done db {} (rev (sorted_tables db))"
      using assms by (simp add: dependency_sorted_def parents_first_rev)
  qed
  then obtain db' where r: "clear_tables db (rev (sorted_tables db)) = Inr db'"
    "\<forall>n. table_rows db' n = (if n \<in> set (rev (sorted_tables db)) then [] else table_rows db n)"
    "journal db' = journal db @ delete_events (rev (sorted_tables db))" by blast
  have "\<forall>t. table_rows db' t = []"
  proof
    fix t
    show "table_rows db' t = []"
    proof (cases "t \<in> set (sorted_tables db)")
      case True
      with r(2) show ?thesis by simp
    next
      case False
      with assms have "t \<notin> set (dict_keys (metadata_tables db))"
        by (simp add: dependency_sorted_def)
      then have "table_rows db t = []" by (rule table_rows_no_table)
      with False r(2) show ?thesis by simp
    qed
  qed
  moreover have "\<forall>(t, u) \<in> (references db)\<^sup>+. before (rev (sorted_tables db)) t u"
  proof (rule ballI)
    fix p
    assume p: "p \<in> (references db)\<^sup>+"
    obtain t u where tu: "p = (t, u)" by (cases p)
    with p references_before[OF assms, of t u]
    show "case p of (t, u) \<Rightarrow> before (rev (sorted_tables db)) t u" by simp
  qed
  ultimately show ?thesis unfolding clear_database_def using r(1,3)
    by (intro exI[of _ db'] conjI)
qed

lemma example_dependency_sorted: "dependency_sorted example_db"
  by (simp add: dependency_sorted_def example_db_def dict_keys_def children_def)

lemma example_references:
  "(''Photometry'', ''Publications'') \<in> (references example_db)\<^sup>+"
proof -
  have a: "(''Photometry'', ''Telescopes'') \<in> references example_db"
    by (simp add: references_def children_def example_db_def dict_keys_def)
  have b: "(''Telescopes'', ''Publications'') \<in> references example_db"
    by (simp add: references_def children_def example_db_def dict_keys_def)
  from a have "(''Photometry'', ''Telescopes'') \<in> (references example_db)\<^sup>+"
    by (rule r_into_trancl)
  then show ?thesis using b by (rule trancl_into_trancl)
qed

lemma example_wrong_order: "isl (clear_tables example_db (sorted_tables example_db))"
  by code_simp

text \<open>
  The example store, with foreign-key checks on: \<open>Photometry\<close> references \<open>Publications\<close>
  through \<open>Telescopes\<close> and is cleared before it.  Clearing in the order of
  \<^verbatim>\<open>sorted_tables\<close> itself raises.
\<close>

theorem clear_tables_dependency_safe_witness:
  "dependency_sorted example_db \<and> foreign_checks example_db \<and>
   isl (clear_tables example_db (sorted_tables example_db)) \<and>
   (''Photometry'', ''Publications'') \<in> (references example_db)\<^sup>+ \<and>
   before (rev (sorted_tables example_db)) ''Photometry'' ''Publications'' \<and>
   (\<exists>db'. clear_database example_db = Inr db' \<and>
           table_rows db' ''Photometry'' = [] \<and> table_rows db' ''Publications'' = [] \<and>
           journal db' = journal example_db @ delete_events (rev (sorted_tables example_db)))"
proof -
  have f: "foreign_checks example_db" by (simp add: example_db_def)
  from clear_tables_dependency_safe[OF example_dependency_sorted] obtain db' where
    r: "clear_database example_db = Inr db'"
       "\<forall>t. table_rows db' t = []"
       "journal db' = journal example_db @ delete_events (rev (sorted_tables example_db))"
       "\<forall>(t, u) \<in> (references example_db)\<^sup>+. before (rev (sorted_tables example_db)) t u"
    by (elim exE conjE)
  from bspec[OF r(4) example_references]
  have b: "before (rev (sorted_tables example_db)) ''Photometry'' ''Publications''"
    by simp
  from r(2) have e1: "table_rows db' ''Photometry'' = []" by (rule spec)
  from r(2) have e2: "table_rows db' ''Publications'' = []" by (rule spec)
  from example_dependency_sorted f example_wrong_order example_references b r(1) e1 e2 r(3)
  show ?thesis by (intro conjI exI[of _ db'])
qed

end
